theory Spec2Isabelle
  imports Main "HOL-Library.Monad_Syntax" "HOL-Library.AList"
begin

section \<open>Syntax-tree nodes as loosely typed values\<close>

text \<open>
  ClassParser.ts reads its arguments as values of type \<open>any\<close> and probes their fields.
  A node is therefore a plain value: \<open>undefined\<close>, \<open>null\<close>, a boolean, a number
  (integers only), a string, an array, or an object, which is the list of its own
  properties in insertion order. Input trees are trees: no object sits at two places.

  A computation that may raise returns an \<open>option\<close>: \<open>None\<close> is a raised exception
  (the code raises nothing but the TypeError of reading a property of \<open>undefined\<close> or
  \<open>null\<close>, of calling what is not a function, or of iterating what is not iterable).
\<close>

datatype jsval =
    JUndef
  | JNull
  | JBool bool
  | JNum int
  | JStr string
  | JArr "jsval list"
  | JObj "(string \<times> jsval) list"

fun truthy :: "jsval \<Rightarrow> bool" where
  "truthy JUndef = False"
| "truthy JNull = False"
| "truthy (JBool b) = b"
| "truthy (JNum n) = (n \<noteq> 0)"
| "truthy (JStr s) = (s \<noteq> [])"
| "truthy (JArr xs) = True"
| "truthy (JObj al) = True"

fun nullish :: "jsval \<Rightarrow> bool" where
  "nullish JUndef = True"
| "nullish JNull = True"
| "nullish v = False"

text \<open>\<open>a === b\<close>: primitives by value; two objects or arrays of a tree are never the same object.\<close>

fun strict_eq :: "jsval \<Rightarrow> jsval \<Rightarrow> bool" where
  "strict_eq (JArr xs) b = False"
| "strict_eq (JObj al) b = False"
| "strict_eq a b = (a = b)"

definition digit_char :: "nat \<Rightarrow> char" where
  "digit_char n = ''0123456789'' ! (n mod 10)"

function show_nat :: "nat \<Rightarrow> string" where
  "show_nat n = (if n < 10 then [digit_char n] else show_nat (n div 10) @ [digit_char (n mod 10)])"
  by pat_completeness auto
termination
  by (relation "measure id") auto

text \<open>\<open>v.k\<close> on a value that is neither \<open>undefined\<close> nor \<open>null\<close>.\<close>

fun field :: "jsval \<Rightarrow> string \<Rightarrow> jsval" where
  "field (JObj al) k = (case map_of al k of Some v \<Rightarrow> v | None \<Rightarrow> JUndef)"
| "field (JArr xs) k = (if k = ''length'' then JNum (int (length xs)) else JUndef)"
| "field (JStr s) k = (if k = ''length'' then JNum (int (length s)) else JUndef)"
| "field v k = JUndef"

text \<open>\<open>v[i]\<close> on a value that is neither \<open>undefined\<close> nor \<open>null\<close>.\<close>

fun elem :: "jsval \<Rightarrow> nat \<Rightarrow> jsval" where
  "elem (JArr xs) i = (if i < length xs then xs ! i else JUndef)"
| "elem (JStr s) i = (if i < length s then JStr [s ! i] else JUndef)"
| "elem v i = field v (show_nat i)"

text \<open>\<open>v.k\<close> and \<open>v[i]\<close> as the code writes them: they raise on \<open>undefined\<close> and \<open>null\<close>.\<close>

definition get :: "jsval \<Rightarrow> string \<Rightarrow> jsval option" where
  "get v k = (if nullish v then None else Some (field v k))"

definition idx :: "jsval \<Rightarrow> nat \<Rightarrow> jsval option" where
  "idx v i = (if nullish v then None else Some (elem v i))"

text \<open>\<open>{...v}\<close>: the own properties of an object; every spread of the code is applied to an object.\<close>

fun spread :: "jsval \<Rightarrow> (string \<times> jsval) list" where
  "spread (JObj al) = al"
| "spread v = []"

text \<open>\<open>{...v, k: x}\<close> and \<open>Object.assign(v, {k: x})\<close>: the property keeps its place, or is added last.\<close>

definition with_prop :: "jsval \<Rightarrow> string \<Rightarrow> jsval \<Rightarrow> jsval" where
  "with_prop v k x = JObj (AList.update k x (spread v))"

definition is_string :: "jsval \<Rightarrow> bool" where
  "is_string v = (case v of JStr s \<Rightarrow> True | _ \<Rightarrow> False)"

definition has_type :: "jsval \<Rightarrow> string \<Rightarrow> bool" where
  "has_type v t = (field v ''type'' = JStr t)"

section \<open>Node predicates\<close>

definition isValidIdentifier :: "jsval \<Rightarrow> bool" where
  "isValidIdentifier node =
     (truthy node \<and> has_type node ''Identifier'' \<and> is_string (field node ''name''))"

definition isValidMemberExpression :: "jsval \<Rightarrow> bool" where
  "isValidMemberExpression node =
     (truthy node \<and> has_type node ''MemberExpression'' \<and> truthy (field node ''object'')
      \<and> truthy (field node ''property''))"

definition isValidFunctionExpression :: "jsval \<Rightarrow> bool" where
  "isValidFunctionExpression node =
     (truthy node \<and> has_type node ''FunctionExpression'' \<and> truthy (field node ''body'')
      \<and> truthy (field (field node ''body'') ''body''))"

section \<open>Shape classification and context extraction\<close>

datatype ClassType = Class | NewClass

record ClassParsingContext =
  name :: jsval
  superClass :: jsval
  protoIdentifier :: jsval
  classConstructor :: jsval
  functionBody :: jsval
  walkBase :: jsval

text \<open>\<open>node.init?.type === t && node.init.callee?.type === c\<close>, for a node that is not nullish.\<close>

definition init_callee_types :: "jsval \<Rightarrow> string \<Rightarrow> string \<Rightarrow> bool" where
  "init_callee_types node t c =
     (let init = field node ''init'' in
      \<not> nullish init \<and> has_type init t \<and>
      (let callee = field init ''callee'' in \<not> nullish callee \<and> has_type callee c))"

definition findClassType :: "jsval \<Rightarrow> jsval \<Rightarrow> ClassType option option" where
  "findClassType node parent =
     (if nullish node \<or> nullish parent then None
      else if has_type parent ''VariableDeclaration''
              \<and> init_callee_types node ''CallExpression'' ''FunctionExpression''
        then Some (Some Class)
      else if has_type parent ''VariableDeclaration''
              \<and> init_callee_types node ''NewExpression'' ''ParenthesizedExpression''
        then Some (Some NewClass)
      else Some None)"

text \<open>\<open>functionBody[2]?.declarations[0]?.id?.name\<close>: only the guarded links are safe.\<close>

definition protoIdentifier_of :: "jsval \<Rightarrow> jsval option" where
  "protoIdentifier_of fb =
     do {
       s2 \<leftarrow> idx fb 2;
       if nullish s2 then Some JUndef
       else do {
         d0 \<leftarrow> idx (field s2 ''declarations'') 0;
         if nullish d0 then Some JUndef
         else (let i = field d0 ''id'' in
               if nullish i then Some JUndef else Some (field i ''name''))
       }
     }"

text \<open>
  The test of the inheritance-helper idiom, as the conjunction of the code, left to right.
  \<open>pr\<close> is the external source printer (\<open>recast.print(x).code\<close>), \<open>None\<close> when it
  raises. The test raises only when the printer does: every other link is guarded.
\<close>

definition helper_call_matches :: "(jsval \<Rightarrow> string option) \<Rightarrow> jsval \<Rightarrow> jsval \<Rightarrow> bool option" where
  "helper_call_matches pr cid s0 =
     (if \<not> truthy cid then Some False
      else if nullish s0 \<or> \<not> has_type s0 ''ExpressionStatement'' then Some False
      else (let e = field s0 ''expression'' in
        if nullish e \<or> \<not> has_type e ''CallExpression'' then Some False
        else (let args = field e ''arguments'' in
          if nullish args \<or> field args ''length'' \<noteq> JNum 2 then Some False
          else do {
            a \<leftarrow> pr (elem args 0);
            b \<leftarrow> pr cid;
            Some (a = b)
          })))"

definition superClass_of ::
  "(jsval \<Rightarrow> string option) \<Rightarrow> jsval \<Rightarrow> jsval \<Rightarrow> jsval \<Rightarrow> jsval option" where
  "superClass_of pr cc fb outer =
     do {
       cid \<leftarrow> get cc ''id'';
       if \<not> truthy cid then Some JNull
       else do {
         s0 \<leftarrow> idx fb 0;
         m \<leftarrow> helper_call_matches pr cid s0;
         if m then do { args \<leftarrow> get outer ''arguments''; idx args 0 }
         else Some JNull
       }
     }"

definition buildClassContext ::
  "(jsval \<Rightarrow> string option) \<Rightarrow> jsval \<Rightarrow> jsval \<Rightarrow> jsval \<Rightarrow> ClassParsingContext option" where
  "buildClassContext pr node parent nm =
     do {
       init \<leftarrow> get node ''init'';
       rawFunction \<leftarrow> get init ''callee'';
       b \<leftarrow> get rawFunction ''body'';
       fb \<leftarrow> get b ''body'';
       pid \<leftarrow> protoIdentifier_of fb;
       cc \<leftarrow> idx fb 1;
       sc \<leftarrow> superClass_of pr cc fb init;
       Some \<lparr> name = nm, superClass = sc, protoIdentifier = pid, classConstructor = cc,
              functionBody = fb, walkBase = JObj [] \<rparr>
     }"

definition buildNewClassContext ::
  "(jsval \<Rightarrow> string option) \<Rightarrow> jsval \<Rightarrow> jsval \<Rightarrow> jsval \<Rightarrow> ClassParsingContext option" where
  "buildNewClassContext pr node parent nm =
     do {
       init \<leftarrow> get node ''init'';
       callee \<leftarrow> get init ''callee'';
       inner \<leftarrow> get callee ''expression'';
       rawFunction \<leftarrow> get inner ''callee'';
       b \<leftarrow> get rawFunction ''body'';
       fb \<leftarrow> get b ''body'';
       pid \<leftarrow> protoIdentifier_of fb;
       cc \<leftarrow> idx fb 1;
       sc \<leftarrow> superClass_of pr cc fb inner;
       Some \<lparr> name = nm, superClass = sc, protoIdentifier = pid, classConstructor = cc,
              functionBody = fb, walkBase = JObj [] \<rparr>
     }"

text \<open>
  The try/catch of buildParsingContext turns every exception of the extraction into
  \<open>null\<close>: the result is \<open>None\<close> for \<open>null\<close>, and there is no raising outcome.
\<close>

definition buildParsingContext ::
  "(jsval \<Rightarrow> string option) \<Rightarrow> jsval \<Rightarrow> jsval \<Rightarrow> ClassType \<Rightarrow> ClassParsingContext option" where
  "buildParsingContext pr node parent classType =
     (case (if nullish node then None
            else (let i = field node ''id'' in
                  Some (if nullish i then JUndef else field i ''name''))) of
        None \<Rightarrow> None
      | Some nm \<Rightarrow>
          if \<not> truthy nm then None
          else (case classType of
                  Class \<Rightarrow> buildClassContext pr node parent nm
                | NewClass \<Rightarrow> buildNewClassContext pr node parent nm))"

section \<open>The external tree walker\<close>

text \<open>
  A run of the rewrite yields, besides its value, the base-visitor arguments it handed to
  the walker, in call order; \<open>None\<close> is still a raised exception.
\<close>

type_synonym 'a traced = "(jsval list \<times> 'a) option"

text \<open>
  Modelled from the spec: the external tree-walking facility \<open>walk.ancestor\<close> (acorn-walk,
  not part of the repository) is a traversal that reaches every node below its root,
  children before their parent, and calls the visitor registered for the node's
  \<open>type\<close>. The visitors of ClassParser.ts change the visited node with
  \<open>Object.assign\<close>; the walk returns the tree as those changes leave it. A visitor that
  raises ends the walk with its exception.
\<close>

fun walk :: "string \<Rightarrow> (jsval \<Rightarrow> jsval traced) \<Rightarrow> jsval \<Rightarrow> jsval traced"
  and walk_list :: "string \<Rightarrow> (jsval \<Rightarrow> jsval traced) \<Rightarrow> jsval list \<Rightarrow> (jsval list) traced"
  and walk_fields :: "string \<Rightarrow> (jsval \<Rightarrow> jsval traced) \<Rightarrow> (string \<times> jsval) list
                        \<Rightarrow> ((string \<times> jsval) list) traced"
where
  "walk k f (JObj al) =
     do {
       (l, al') \<leftarrow> walk_fields k f al;
       if has_type (JObj al') k
       then do { (l', n) \<leftarrow> f (JObj al'); Some (l @ l', n) }
       else Some (l, JObj al')
     }"
| "walk k f (JArr xs) = do { (l, xs') \<leftarrow> walk_list k f xs; Some (l, JArr xs') }"
| "walk k f JUndef = Some ([], JUndef)"
| "walk k f JNull = Some ([], JNull)"
| "walk k f (JBool b) = Some ([], JBool b)"
| "walk k f (JNum n) = Some ([], JNum n)"
| "walk k f (JStr s) = Some ([], JStr s)"
| "walk_list k f [] = Some ([], [])"
| "walk_list k f (x # xs) =
     do {
       (l, x') \<leftarrow> walk k f x;
       (l', xs') \<leftarrow> walk_list k f xs;
       Some (l @ l', x' # xs')
     }"
| "walk_fields k f [] = Some ([], [])"
| "walk_fields k f (kv # al) =
     do {
       (l, v') \<leftarrow> walk k f (snd kv);
       (l', al') \<leftarrow> walk_fields k f al;
       Some (l @ l', (fst kv, v') # al')
     }"

text \<open>
  Every walk of the code starts at a root built on the spot,
  \<open>{...functionExpression, body: {...functionExpression.body, body: statements}}\<close>.
  The root and its block are fresh objects that are dropped after the walk, so what a
  visitor assigns to these two is lost; all else below the root is shared with the
  function expression and its statements, and is read again by the callers. The model
  returns the root with everything below it walked (\<open>g\<close> walks the statement list).
  The visitor is still called at the root and at the block when their \<open>type\<close> is the
  visitor's: its exception and its calls of the walker count, its assignments do not.
\<close>

fun walk_fields_at ::
  "string \<Rightarrow> string \<Rightarrow> (jsval \<Rightarrow> jsval traced) \<Rightarrow> (jsval \<Rightarrow> jsval traced)
     \<Rightarrow> (string \<times> jsval) list \<Rightarrow> ((string \<times> jsval) list) traced" where
  "walk_fields_at key k f g [] = Some ([], [])"
| "walk_fields_at key k f g (kv # al) =
     do {
       (l, v') \<leftarrow> (if fst kv = key then g (snd kv) else walk k f (snd kv));
       (l', al') \<leftarrow> walk_fields_at key k f g al;
       Some (l @ l', (fst kv, v') # al')
     }"

definition walk_block :: "string \<Rightarrow> (jsval \<Rightarrow> jsval traced) \<Rightarrow> (jsval \<Rightarrow> jsval traced) \<Rightarrow> jsval \<Rightarrow> jsval traced" where
  "walk_block k f g b =
     do {
       (l, al) \<leftarrow> walk_fields_at ''body'' k f g (spread b);
       if has_type (JObj al) k
       then do { (l', n) \<leftarrow> f (JObj al); Some (l @ l', JObj al) }
       else Some (l, JObj al)
     }"

definition walk_root :: "string \<Rightarrow> (jsval \<Rightarrow> jsval traced) \<Rightarrow> (jsval \<Rightarrow> jsval traced) \<Rightarrow> jsval \<Rightarrow> jsval traced" where
  "walk_root k f g r = walk_block k f (walk_block k f g) r"

definition walk_statements :: "string \<Rightarrow> (jsval \<Rightarrow> jsval traced) \<Rightarrow> jsval \<Rightarrow> jsval traced" where
  "walk_statements k f v =
     (case v of JArr xs \<Rightarrow> do { (l, xs') \<leftarrow> walk_list k f xs; Some (l, JArr xs') }
              | _ \<Rightarrow> Some ([], v))"

text \<open>\<open>{...functionExpression, body: {...functionExpression.body, body: statements}}\<close>\<close>

definition walk_root_of :: "jsval \<Rightarrow> jsval list \<Rightarrow> jsval" where
  "walk_root_of fe stmts = with_prop fe ''body'' (with_prop (field fe ''body'') ''body'' (JArr stmts))"

text \<open>
  \<open>walk.ancestor(root, {k: f}, walkBase)\<close>. The base visitor is opaque: the model records
  which one the walker is given, and the traversal does not depend on it.
\<close>

definition walk_ancestor :: "jsval \<Rightarrow> string \<Rightarrow> (jsval \<Rightarrow> jsval traced) \<Rightarrow> jsval \<Rightarrow> jsval traced" where
  "walk_ancestor root k f wb =
     do { (l, r) \<leftarrow> walk_root k f (walk_statements k f) root; Some (wb # l, r) }"

text \<open>
  The walker calls a visitor as a member of the visitors object,
  \<open>visitors[type](node, ...)\<close>, and the visitors of ClassParser.ts are written in method
  shorthand, so inside them \<open>this\<close> is the visitors object and not the class.
  \<open>call_this own m x\<close> is a call \<open>this.m(...)\<close> made there, \<open>own\<close> being the members of the
  visitors object: a name that is not among them is \<open>undefined\<close>, and calling it raises a
  TypeError. (\<open>x\<close> stands for what the member returns when there is one; no visitor of the
  code calls a member of its own object.)
\<close>

definition call_this :: "string list \<Rightarrow> string \<Rightarrow> 'a \<Rightarrow> 'a option" where
  "call_this own m x = (if m \<in> set own then Some x else None)"

text \<open>The statement list of a function expression, \<open>fe.body.body\<close>, when it is an array.\<close>

definition statements_of :: "jsval \<Rightarrow> jsval list" where
  "statements_of fe = (case field (field fe ''body'') ''body'' of JArr xs \<Rightarrow> xs | _ \<Rightarrow> [])"

section \<open>De-aliasing of a function body\<close>

text \<open>The alias record of extractVariableReplacements; an unset property is \<open>undefined\<close>.\<close>

record replacements =
  thisProps :: jsval
  thisConstructor :: jsval
  thisMirror :: jsval

definition no_replacements :: replacements where
  "no_replacements = \<lparr> thisProps = JUndef, thisConstructor = JUndef, thisMirror = JUndef \<rparr>"

text \<open>\<open>for (const x of v)\<close>: arrays and strings are iterable, nothing else is.\<close>

fun iterate :: "jsval \<Rightarrow> jsval list option" where
  "iterate (JArr xs) = Some xs"
| "iterate (JStr s) = Some (map (\<lambda>c. JStr [c]) s)"
| "iterate v = None"

text \<open>\<open>v.map\<close>, \<open>v.filter\<close>, \<open>v.pop\<close>: only an array has them all.\<close>

fun as_array :: "jsval \<Rightarrow> jsval list option" where
  "as_array (JArr xs) = Some xs"
| "as_array v = None"

text \<open>The body of the inner loop, for one declarator.\<close>

definition extract_declarator :: "replacements \<Rightarrow> jsval \<Rightarrow> replacements option" where
  "extract_declarator r declarator =
     do {
       i \<leftarrow> get declarator ''id'';
       let init = field declarator ''init'';
       if \<not> isValidIdentifier i \<or> \<not> isValidMemberExpression init then Some r
       else if has_type (field init ''object'') ''ThisExpression''
               \<and> isValidIdentifier (field init ''property'')
       then (let propertyName = field (field init ''property'') ''name'' in
             if propertyName = JStr ''props'' then Some (r\<lparr> thisProps := field i ''name'' \<rparr>)
             else if propertyName = JStr ''constructor''
               then Some (r\<lparr> thisConstructor := field i ''name'' \<rparr>)
             else Some r)
       else if has_type init ''ThisExpression'' then Some (r\<lparr> thisMirror := field i ''name'' \<rparr>)
       else Some r
     }"

fun extract_declarators :: "replacements \<Rightarrow> jsval list \<Rightarrow> replacements option" where
  "extract_declarators r [] = Some r"
| "extract_declarators r (d # ds) = do { r' \<leftarrow> extract_declarator r d; extract_declarators r' ds }"

definition extract_statement :: "replacements \<Rightarrow> jsval \<Rightarrow> replacements option" where
  "extract_statement r node =
     do {
       t \<leftarrow> get node ''type'';
       if t = JStr ''VariableDeclaration''
       then do { ds \<leftarrow> iterate (field node ''declarations''); extract_declarators r ds }
       else Some r
     }"

fun extract_statements :: "replacements \<Rightarrow> jsval list \<Rightarrow> replacements option" where
  "extract_statements r [] = Some r"
| "extract_statements r (n # ns) = do { r' \<leftarrow> extract_statement r n; extract_statements r' ns }"

definition extractVariableReplacements :: "jsval \<Rightarrow> replacements option" where
  "extractVariableReplacements fb = do { ns \<leftarrow> iterate fb; extract_statements no_replacements ns }"

text \<open>The filter callback of cleanupVariableDeclarations: is the declarator kept?\<close>

definition keeps_declarator :: "replacements \<Rightarrow> jsval \<Rightarrow> bool option" where
  "keeps_declarator r declarator =
     do {
       i \<leftarrow> get declarator ''id'';
       if \<not> isValidIdentifier i then Some True
       else (let idName = field i ''name'' in
             Some (\<not> (strict_eq idName (thisProps r) \<or> strict_eq idName (thisConstructor r)
                       \<or> strict_eq idName (thisMirror r))))
     }"

fun filter_declarators :: "replacements \<Rightarrow> jsval list \<Rightarrow> jsval list option" where
  "filter_declarators r [] = Some []"
| "filter_declarators r (d # ds) =
     do {
       keep \<leftarrow> keeps_declarator r d;
       ds' \<leftarrow> filter_declarators r ds;
       Some (if keep then d # ds' else ds')
     }"

text \<open>The map callback: the statement, a copy with fewer declarators, or \<open>null\<close>.\<close>

definition cleanup_statement :: "replacements \<Rightarrow> jsval \<Rightarrow> jsval option" where
  "cleanup_statement r node =
     do {
       t \<leftarrow> get node ''type'';
       if t = JStr ''VariableDeclaration''
       then do {
         ds \<leftarrow> as_array (field node ''declarations'');
         filtered \<leftarrow> filter_declarators r ds;
         Some (if filtered \<noteq> [] then with_prop node ''declarations'' (JArr filtered) else JNull)
       }
       else Some node
     }"

fun cleanup_statements :: "replacements \<Rightarrow> jsval list \<Rightarrow> jsval list option" where
  "cleanup_statements r [] = Some []"
| "cleanup_statements r (n # ns) =
     do { n' \<leftarrow> cleanup_statement r n; ns' \<leftarrow> cleanup_statements r ns; Some (n' # ns') }"

definition cleanupVariableDeclarations :: "jsval \<Rightarrow> replacements \<Rightarrow> jsval list option" where
  "cleanupVariableDeclarations fb r =
     do { ns \<leftarrow> as_array fb; ns' \<leftarrow> cleanup_statements r ns; Some (filter truthy ns') }"

definition this_node :: jsval where
  "this_node = JObj [(''type'', JStr ''ThisExpression'')]"

definition this_props_node :: jsval where
  "this_props_node =
     JObj [(''type'', JStr ''MemberExpression''),
           (''object'', this_node),
           (''property'', JObj [(''type'', JStr ''Identifier''), (''name'', JStr ''props'')])]"

text \<open>
  The MemberExpression visitor. The object it is a member of has no other member, and the
  visitor reaches ClassParser's helpers through \<open>this\<close>. Its three steps follow, each on
  the node as the step before left it, with every call through \<open>this\<close> where the code
  makes it: the first only when \<open>replacements.thisProps\<close> is set, the last only when the
  object is a \<open>this\<close> expression.
\<close>

definition member_visitors :: "string list" where
  "member_visitors = [''MemberExpression'']"

definition replace_props_alias :: "replacements \<Rightarrow> jsval \<Rightarrow> jsval option" where
  "replace_props_alias r node =
     (if \<not> truthy (thisProps r) then Some node
      else do {
        ok \<leftarrow> call_this member_visitors ''isValidIdentifier''
                (isValidIdentifier (field node ''object''));
        Some (if ok \<and> strict_eq (field (field node ''object'') ''name'') (thisProps r)
              then with_prop node ''object'' this_props_node else node)
      })"

definition replace_this_alias :: "replacements \<Rightarrow> jsval \<Rightarrow> jsval option" where
  "replace_this_alias r node =
     do {
       ok \<leftarrow> call_this member_visitors ''isValidIdentifier''
               (isValidIdentifier (field node ''object''));
       Some (if ok
             then (if truthy (thisConstructor r)
                      \<and> strict_eq (field (field node ''object'') ''name'') (thisConstructor r)
                   then with_prop node ''object'' this_node
                   else if truthy (thisMirror r)
                      \<and> strict_eq (field (field node ''object'') ''name'') (thisMirror r)
                   then with_prop node ''object'' this_node
                   else node)
             else node)
     }"

definition collapse_this_constructor :: "jsval \<Rightarrow> jsval option" where
  "collapse_this_constructor node =
     do {
       t \<leftarrow> get (field node ''object'') ''type'';
       if t \<noteq> JStr ''ThisExpression'' then Some node
       else do {
         ok \<leftarrow> call_this member_visitors ''isValidIdentifier''
                 (isValidIdentifier (field node ''property''));
         Some (if ok \<and> field (field node ''property'') ''name'' = JStr ''constructor''
               then with_prop node ''type'' (JStr ''ThisExpression'') else node)
       }
     }"

definition member_visitor :: "replacements \<Rightarrow> jsval \<Rightarrow> jsval option" where
  "member_visitor r node =
     do {
       valid \<leftarrow> call_this member_visitors ''isValidMemberExpression''
                  (isValidMemberExpression node);
       if \<not> valid then Some node
       else do {
         n1 \<leftarrow> replace_props_alias r node;
         n2 \<leftarrow> replace_this_alias r n1;
         collapse_this_constructor n2
       }
     }"

definition applyVariableReplacements ::
  "jsval \<Rightarrow> jsval list \<Rightarrow> replacements \<Rightarrow> jsval \<Rightarrow> jsval traced" where
  "applyVariableReplacements fe stmts r wb =
     walk_ancestor (walk_root_of fe stmts) ''MemberExpression''
       (\<lambda>node. do { n \<leftarrow> member_visitor r node; Some ([], n) }) wb"

text \<open>
  parseFunctionBody returns the cleaned statement array, whose nodes the walk has changed
  in place together with everything else below the function expression. The model returns
  the function expression in that state; the array of the code is its \<open>statements_of\<close>.
\<close>

definition parseFunctionBody :: "jsval \<Rightarrow> jsval \<Rightarrow> jsval traced" where
  "parseFunctionBody fe wb =
     do {
       b \<leftarrow> get fe ''body'';
       fb \<leftarrow> get b ''body'';
       r \<leftarrow> extractVariableReplacements fb;
       cleaned \<leftarrow> cleanupVariableDeclarations fb r;
       applyVariableReplacements fe cleaned r wb
     }"

section \<open>Constructor reconstruction\<close>

text \<open>
  \<open>s?.type === 'VariableDeclaration' && s.declarations[0]?.id?.type === 'Identifier'\<close>;
  the unguarded \<open>s.declarations[0]\<close> raises when there are no declarations.
\<close>

definition declares_identifier :: "jsval \<Rightarrow> bool option" where
  "declares_identifier s =
     (if \<not> has_type s ''VariableDeclaration'' then Some False
      else do {
        d0 \<leftarrow> idx (field s ''declarations'') 0;
        Some (has_type (field d0 ''id'') ''Identifier'')
      })"

text \<open>\<open>functionBody[0].declarations[0].id.name\<close>\<close>

definition declared_name :: "jsval \<Rightarrow> jsval option" where
  "declared_name s =
     do {
       ds \<leftarrow> get s ''declarations'';
       d0 \<leftarrow> idx ds 0;
       i \<leftarrow> get d0 ''id'';
       get i ''name''
     }"

text \<open>
  The tests on the right-hand side \<open>s.expression.right\<close> of an assignment statement: a
  logical \<open>||\<close> of a call (for the regular idiom: a call of a member expression) and
  \<open>this\<close>. Each link is guarded by the test before it.
\<close>

definition assigns_call_or_this :: "bool \<Rightarrow> jsval \<Rightarrow> bool" where
  "assigns_call_or_this member_callee s =
     (let e = field s ''expression''; r = field e ''right''; c = field r ''left'' in
      has_type s ''ExpressionStatement'' \<and> has_type e ''AssignmentExpression''
      \<and> has_type r ''LogicalExpression'' \<and> has_type c ''CallExpression''
      \<and> (member_callee \<longrightarrow> has_type (field c ''callee'') ''MemberExpression'')
      \<and> field r ''operator'' = JStr ''||''
      \<and> has_type (field r ''right'') ''ThisExpression'')"

text \<open>\<open>lastNode?.type === 'ReturnStatement' && ... && lastNode.argument.name === s.declarations[0].id.name\<close>\<close>

definition returns_declared :: "jsval \<Rightarrow> jsval \<Rightarrow> bool" where
  "returns_declared lastNode s =
     (has_type lastNode ''ReturnStatement''
      \<and> has_type (field lastNode ''argument'') ''Identifier''
      \<and> strict_eq (field (field lastNode ''argument'') ''name'')
           (field (field (elem (field s ''declarations'') 0) ''id'') ''name''))"

text \<open>
  The pattern tests and the handlers take the statements as a list: their caller has
  spread \<open>functionBody\<close> into an array before, and \<open>functionBody[i]\<close> is the list's
  element, or \<open>undefined\<close> past its end.
\<close>

definition stmt_at :: "jsval list \<Rightarrow> nat \<Rightarrow> jsval" where
  "stmt_at stmts i = (if i < length stmts then stmts ! i else JUndef)"

definition isSpreadArgumentsPattern :: "jsval list \<Rightarrow> jsval \<Rightarrow> jsval \<Rightarrow> jsval \<Rightarrow> bool option" where
  "isSpreadArgumentsPattern stmts lastNode fe sc =
     (if \<not> truthy sc then Some False
      else do {
        params \<leftarrow> get fe ''params'';
        n \<leftarrow> get params ''length'';
        if n \<noteq> JNum 0 then Some False
        else if length stmts < 3 then Some False
        else do {
          d \<leftarrow> declares_identifier (stmt_at stmts 0);
          Some (d \<and> has_type (stmt_at stmts 1) ''ForStatement''
                \<and> assigns_call_or_this False (stmt_at stmts 2)
                \<and> returns_declared lastNode (stmt_at stmts 0))
        }
      })"

definition isRegularSuperCallPattern :: "jsval list \<Rightarrow> jsval \<Rightarrow> jsval \<Rightarrow> bool option" where
  "isRegularSuperCallPattern stmts lastNode sc =
     (if \<not> truthy sc \<or> length stmts < 2 then Some False
      else do {
        d \<leftarrow> declares_identifier (stmt_at stmts 0);
        Some (d \<and> assigns_call_or_this True (stmt_at stmts 1)
              \<and> returns_declared lastNode (stmt_at stmts 0))
      })"

definition super_call :: "jsval list \<Rightarrow> jsval" where
  "super_call args =
     JObj [(''type'', JStr ''ExpressionStatement''),
           (''expression'',
              JObj [(''type'', JStr ''CallExpression''),
                    (''callee'', JObj [(''type'', JStr ''Super'')]),
                    (''arguments'', JArr args),
                    (''optional'', JBool False)])]"

definition args_identifier :: jsval where
  "args_identifier = JObj [(''type'', JStr ''Identifier''), (''name'', JStr ''args'')]"

definition identifier_visitor :: "jsval \<Rightarrow> jsval \<Rightarrow> jsval" where
  "identifier_visitor targetIdentifier node =
     (if strict_eq (field node ''name'') targetIdentifier
      then with_prop node ''type'' (JStr ''ThisExpression'') else node)"

text \<open>
  replaceIdentifierReferences returns nothing: it changes the nodes in place. The model
  returns the function expression with the renamed statements as its statement list.
\<close>

definition replaceIdentifierReferences :: "jsval \<Rightarrow> jsval list \<Rightarrow> jsval \<Rightarrow> jsval \<Rightarrow> jsval traced" where
  "replaceIdentifierReferences fe clone targetIdentifier wb =
     walk_ancestor (walk_root_of fe clone) ''Identifier''
       (\<lambda>node. Some ([], identifier_visitor targetIdentifier node)) wb"

definition handleSpreadArguments :: "jsval list \<Rightarrow> jsval \<Rightarrow> jsval \<Rightarrow> jsval traced" where
  "handleSpreadArguments stmts fe wb =
     do {
       this_name \<leftarrow> declared_name (stmt_at stmts 0);
       let clone = butlast (drop 3 stmts);
       let clone = super_call [JObj [(''type'', JStr ''SpreadElement''), (''argument'', args_identifier)]]
                     # clone;
       replaceIdentifierReferences fe clone this_name wb
     }"

definition handleRegularSuperCall :: "jsval list \<Rightarrow> jsval \<Rightarrow> jsval \<Rightarrow> jsval \<Rightarrow> jsval traced" where
  "handleRegularSuperCall stmts fe sc wb =
     do {
       this_name \<leftarrow> declared_name (stmt_at stmts 0);
       e \<leftarrow> get (stmt_at stmts 1) ''expression'';
       r \<leftarrow> get e ''right'';
       super \<leftarrow> get r ''left'';
       arguments \<leftarrow> get super ''arguments'';
       superArgs \<leftarrow> iterate arguments;
       let superArgs = tl superArgs;
       let clone = butlast (drop 2 stmts);
       let clone = super_call superArgs # clone;
       replaceIdentifierReferences fe clone this_name wb
     }"

section \<open>Nested functions\<close>

text \<open>
  The FunctionExpression visitor, the only member of its visitors object. It reaches
  \<open>isValidFunctionExpression\<close> and \<open>parseFunctionBody\<close> through \<open>this\<close>; the context it
  passes to the latter is \<open>{}\<close>, whose walkBase is \<open>undefined\<close>.
\<close>

definition nested_visitors :: "string list" where
  "nested_visitors = [''FunctionExpression'']"

definition nested_visitor :: "jsval \<Rightarrow> jsval traced" where
  "nested_visitor node =
     do {
       valid \<leftarrow> call_this nested_visitors ''isValidFunctionExpression''
                  (isValidFunctionExpression node);
       if \<not> valid then Some ([], node)
       else do {
         parsed \<leftarrow> call_this nested_visitors ''parseFunctionBody'' (parseFunctionBody node JUndef);
         parsed
       }
     }"

text \<open>
  processNestedFunctions returns the statement array it was given, changed in place; the
  model returns the function expression with that array as its statement list.
\<close>

definition processNestedFunctions :: "jsval \<Rightarrow> jsval list \<Rightarrow> jsval \<Rightarrow> jsval traced" where
  "processNestedFunctions fe clone wb =
     walk_ancestor (walk_root_of fe clone) ''FunctionExpression'' nested_visitor wb"

definition rest_params :: jsval where
  "rest_params = JArr [JObj [(''type'', JStr ''RestElement''), (''argument'', args_identifier)]]"

text \<open>
  parseConstructor. The statement list is spread into an array first, which raises on what
  is not iterable. On the early return the function expression comes back as it is and
  the walker is not called.
\<close>

definition parseConstructor :: "jsval \<Rightarrow> ClassParsingContext \<Rightarrow> jsval traced" where
  "parseConstructor fe ctx =
     do {
       b \<leftarrow> get fe ''body'';
       fb \<leftarrow> get b ''body'';
       stmts \<leftarrow> iterate fb;
       let lastNode = (if stmts = [] then JUndef else last stmts);
       if stmts = [] \<or> \<not> truthy lastNode then Some ([], fe)
       else do {
         isSpread \<leftarrow> isSpreadArgumentsPattern stmts lastNode fe (superClass ctx);
         (l, fe') \<leftarrow>
           (if isSpread then handleSpreadArguments stmts fe (walkBase ctx)
            else do {
              isRegular \<leftarrow> isRegularSuperCallPattern stmts lastNode (superClass ctx);
              if isRegular then handleRegularSuperCall stmts fe (superClass ctx) (walkBase ctx)
              else Some ([], walk_root_of fe stmts)
            });
         (l', fe'') \<leftarrow> processNestedFunctions fe' (statements_of fe') (walkBase ctx);
         Some (l @ l',
               with_prop fe'' ''params'' (if isSpread then rest_params else field fe'' ''params''))
       }
     }"

section \<open>Class assembly\<close>

definition identifier_node :: "jsval \<Rightarrow> jsval" where
  "identifier_node nm = JObj [(''type'', JStr ''Identifier''), (''name'', nm)]"

definition method_definition :: "jsval \<Rightarrow> jsval \<Rightarrow> jsval \<Rightarrow> jsval" where
  "method_definition is_static key_name v =
     JObj [(''type'', JStr ''MethodDefinition''), (''static'', is_static),
           (''computed'', JBool False), (''key'', identifier_node key_name),
           (''kind'', JStr ''method''), (''value'', v)]"

definition createConstructorMethod :: "jsval \<Rightarrow> ClassParsingContext \<Rightarrow> jsval traced" where
  "createConstructorMethod cc ctx =
     do {
       (l, fe) \<leftarrow> parseFunctionBody cc (walkBase ctx);
       let constructorExpression =
             with_prop (with_prop fe ''type'' (JStr ''FunctionExpression'')) ''id'' JNull;
       (l', v) \<leftarrow> parseConstructor constructorExpression ctx;
       Some (l @ l', method_definition (JBool False) (JStr ''constructor'') v)
     }"

text \<open>\<open>a && b\<close> as a value.\<close>

definition js_and :: "jsval \<Rightarrow> jsval \<Rightarrow> jsval" where
  "js_and a b = (if truthy a then b else a)"

text \<open>The map callback of createMethodsFromFunctionBody: a method, or \<open>null\<close>.\<close>

definition method_of_statement ::
  "jsval \<Rightarrow> jsval \<Rightarrow> ClassParsingContext \<Rightarrow> jsval \<Rightarrow> jsval traced" where
  "method_of_statement pid cc ctx statement =
     do {
       t \<leftarrow> get statement ''type'';
       if t \<noteq> JStr ''ExpressionStatement'' then Some ([], JNull)
       else do {
         et \<leftarrow> get (field statement ''expression'') ''type'';
         let left = field (field statement ''expression'') ''left'';
         let right = field (field statement ''expression'') ''right'';
         if et \<noteq> JStr ''AssignmentExpression'' \<or> \<not> isValidMemberExpression left
            \<or> \<not> isValidFunctionExpression right
         then Some ([], JNull)
         else if \<not> isValidIdentifier (field left ''object'')
                 \<or> \<not> isValidIdentifier (field left ''property'')
         then Some ([], JNull)
         else do {
           let objectName = field (field left ''object'') ''name'';
           let methodName = field (field left ''property'') ''name'';
           cid \<leftarrow> get cc ''id'';
           let isStatic = js_and cid (JBool (strict_eq objectName (field cid ''name'')));
           if \<not> (strict_eq objectName pid \<or> truthy isStatic) then Some ([], JNull)
           else do {
             (l, fe) \<leftarrow> parseFunctionBody right (walkBase ctx);
             Some (l, method_definition isStatic methodName (with_prop fe ''id'' JNull))
           }
         }
       }
     }"

fun methods_of_statements ::
  "jsval \<Rightarrow> jsval \<Rightarrow> ClassParsingContext \<Rightarrow> jsval list \<Rightarrow> (jsval list) traced" where
  "methods_of_statements pid cc ctx [] = Some ([], [])"
| "methods_of_statements pid cc ctx (s # ss) =
     do {
       (l, m) \<leftarrow> method_of_statement pid cc ctx s;
       (l', ms) \<leftarrow> methods_of_statements pid cc ctx ss;
       Some (l @ l', m # ms)
     }"

definition createMethodsFromFunctionBody ::
  "jsval \<Rightarrow> jsval \<Rightarrow> jsval \<Rightarrow> ClassParsingContext \<Rightarrow> (jsval list) traced" where
  "createMethodsFromFunctionBody pid cc fb ctx =
     do { ss \<leftarrow> as_array fb; methods_of_statements pid cc ctx ss }"

definition buildClassBody ::
  "jsval \<Rightarrow> jsval \<Rightarrow> jsval \<Rightarrow> ClassParsingContext \<Rightarrow> (jsval list) traced" where
  "buildClassBody pid cc fb ctx =
     do {
       b \<leftarrow> get cc ''body'';
       stmts \<leftarrow> get b ''body'';
       s0 \<leftarrow> idx stmts 0;
       (l, c) \<leftarrow> (if \<not> has_type s0 ''ReturnStatement''
                  then do { (l, m) \<leftarrow> createConstructorMethod cc ctx; Some (l, [m]) }
                  else Some ([], []));
       (l', ms) \<leftarrow> createMethodsFromFunctionBody pid cc fb ctx;
       Some (l @ l', c @ ms)
     }"

definition class_declaration :: "jsval \<Rightarrow> jsval \<Rightarrow> jsval list \<Rightarrow> (string \<times> jsval) list" where
  "class_declaration nm sc classBody =
     [(''type'', JStr ''ClassDeclaration''), (''id'', identifier_node nm), (''superClass'', sc),
      (''body'', JObj [(''type'', JStr ''ClassBody''), (''body'', JArr (filter truthy classBody))])]"

text \<open>\<open>{...v, k1: x1, k2: x2, ...}\<close>\<close>

definition with_props :: "jsval \<Rightarrow> (string \<times> jsval) list \<Rightarrow> jsval" where
  "with_props v kvs = JObj (AList.updates (map fst kvs) (map snd kvs) (spread v))"

text \<open>
  parseRegularClass keeps the other properties of \<open>parent\<close> by the spread, its
  \<open>declarations\<close> among them. The model shows them as they were passed in: it does not
  follow the in-place changes of the rewrite into the declarators of the input.
\<close>

definition parseRegularClass :: "jsval \<Rightarrow> jsval \<Rightarrow> ClassParsingContext \<Rightarrow> jsval traced" where
  "parseRegularClass node parent ctx =
     do {
       (l, classBody) \<leftarrow> buildClassBody (protoIdentifier ctx) (classConstructor ctx)
                           (functionBody ctx) ctx;
       Some (l, with_props parent (class_declaration (name ctx) (superClass ctx) classBody))
     }"

text \<open>
  \<open>parent.declarations.indexOf(node)\<close> finds \<open>node\<close> by identity. The caller passes a
  declarator of \<open>parent\<close>, and the model finds the first declarator equal to it; when
  there is none, \<open>indexOf\<close> is -1 and the filter keeps every declarator.
\<close>

fun remove_first :: "jsval \<Rightarrow> jsval list \<Rightarrow> jsval list" where
  "remove_first node [] = []"
| "remove_first node (d # ds) = (if d = node then ds else d # remove_first node ds)"

definition parseNewClass :: "jsval \<Rightarrow> jsval \<Rightarrow> ClassParsingContext \<Rightarrow> jsval traced" where
  "parseNewClass node parent ctx =
     do {
       (l, classBody) \<leftarrow> buildClassBody (protoIdentifier ctx) (classConstructor ctx)
                           (functionBody ctx) ctx;
       declarations \<leftarrow> as_array (field parent ''declarations'');
       let otherDeclarations = remove_first node declarations;
       let callee = JObj (class_declaration (name ctx) (superClass ctx) classBody);
       let declarator = with_prop node ''init'' (with_prop (field node ''init'') ''callee'' callee);
       Some (l, with_prop parent ''declarations'' (JArr (otherDeclarations @ [declarator])))
     }"

definition parseClassByType ::
  "ClassType \<Rightarrow> jsval \<Rightarrow> jsval \<Rightarrow> ClassParsingContext \<Rightarrow> jsval traced" where
  "parseClassByType classType node parent ctx =
     (case classType of
        Class \<Rightarrow> parseRegularClass node parent ctx
      | NewClass \<Rightarrow> parseNewClass node parent ctx)"

section \<open>The entry point\<close>

definition parse :: "(jsval \<Rightarrow> string option) \<Rightarrow> jsval \<Rightarrow> jsval \<Rightarrow> jsval \<Rightarrow> jsval traced" where
  "parse pr node parent wb =
     (if \<not> truthy node \<or> \<not> truthy parent \<or> \<not> truthy wb then Some ([], parent)
      else do {
        classType \<leftarrow> findClassType node parent;
        case classType of
          None \<Rightarrow> Some ([], parent)
        | Some ct \<Rightarrow>
            (case buildParsingContext pr node parent ct of
               None \<Rightarrow> Some ([], parent)
             | Some ctx \<Rightarrow> parseClassByType ct node parent ctx)
      })"

section \<open>The specification's notions\<close>

text \<open>
  The inheritance-helper-call idiom in the words of the specification: the constructor
  has a name, the factory body's first statement is an expression statement calling some
  function with exactly two arguments, and the first argument prints as the constructor's
  name does.
\<close>

definition inherits_idiom :: "(jsval \<Rightarrow> string option) \<Rightarrow> jsval \<Rightarrow> jsval \<Rightarrow> bool" where
  "inherits_idiom pr cc fb =
     (truthy (field cc ''id'') \<and>
      (let s0 = elem fb 0; e = field s0 ''expression''; args = field e ''arguments'' in
       has_type s0 ''ExpressionStatement'' \<and> has_type e ''CallExpression'' \<and>
       field args ''length'' = JNum 2 \<and> pr (elem args 0) = pr (field cc ''id'')))"

text \<open>
  The outer expression that carries the superclass argument: the call itself
  (DirectFactory), or the parenthesized call inside the \<open>new\<close> expression (WrappedFactory).
\<close>

definition outer_call :: "ClassType \<Rightarrow> jsval \<Rightarrow> jsval" where
  "outer_call ct node =
     (case ct of Class \<Rightarrow> field node ''init''
               | NewClass \<Rightarrow> field (field (field node ''init'') ''callee'') ''expression'')"

text \<open>
  The statement list of the factory function, the callee of that outer expression. Its
  second statement is the constructor.
\<close>

definition factory_body :: "ClassType \<Rightarrow> jsval \<Rightarrow> jsval" where
  "factory_body ct node = field (field (field (outer_call ct node) ''callee'') ''body'') ''body''"

text \<open>
  The declarator a WrappedFactory rewrite produces: \<open>node\<close> with the callee of its
  \<open>new\<close> expression replaced by the class.
\<close>

definition rewritten_declarator :: "jsval \<Rightarrow> jsval \<Rightarrow> jsval" where
  "rewritten_declarator node cls =
     with_prop node ''init'' (with_prop (field node ''init'') ''callee'' cls)"

section \<open>Example trees\<close>

definition ident :: "string \<Rightarrow> jsval" where
  "ident n = JObj [(''type'', JStr ''Identifier''), (''name'', JStr n)]"

definition member :: "jsval \<Rightarrow> string \<Rightarrow> jsval" where
  "member ob p = JObj [(''type'', JStr ''MemberExpression''), (''object'', ob),
                       (''property'', ident p), (''computed'', JBool False)]"

definition call :: "jsval \<Rightarrow> jsval list \<Rightarrow> jsval" where
  "call c as = JObj [(''type'', JStr ''CallExpression''), (''callee'', c), (''arguments'', JArr as)]"

definition expr_stmt :: "jsval \<Rightarrow> jsval" where
  "expr_stmt e = JObj [(''type'', JStr ''ExpressionStatement''), (''expression'', e)]"

definition assign :: "jsval \<Rightarrow> jsval \<Rightarrow> jsval" where
  "assign l r = JObj [(''type'', JStr ''AssignmentExpression''), (''operator'', JStr ''=''),
                      (''left'', l), (''right'', r)]"

definition logical_or :: "jsval \<Rightarrow> jsval \<Rightarrow> jsval" where
  "logical_or l r = JObj [(''type'', JStr ''LogicalExpression''), (''operator'', JStr ''||''),
                          (''left'', l), (''right'', r)]"

definition return_stmt :: "jsval \<Rightarrow> jsval" where
  "return_stmt e = JObj [(''type'', JStr ''ReturnStatement''), (''argument'', e)]"

definition declarator :: "string \<Rightarrow> jsval \<Rightarrow> jsval" where
  "declarator n i = JObj [(''type'', JStr ''VariableDeclarator''), (''id'', ident n), (''init'', i)]"

definition var_decl :: "jsval list \<Rightarrow> jsval" where
  "var_decl ds = JObj [(''type'', JStr ''VariableDeclaration''), (''declarations'', JArr ds),
                       (''kind'', JStr ''var'')]"

definition func :: "string \<Rightarrow> jsval \<Rightarrow> jsval list \<Rightarrow> jsval list \<Rightarrow> jsval" where
  "func t i ps ss = JObj [(''type'', JStr t), (''id'', i), (''params'', JArr ps),
                          (''body'', JObj [(''type'', JStr ''BlockStatement''), (''body'', JArr ss)])]"

text \<open>A printer for the examples: an identifier prints as its name, anything else raises.\<close>

definition name_printer :: "jsval \<Rightarrow> string option" where
  "name_printer v = (case field v ''name'' of JStr s \<Rightarrow> Some s | _ \<Rightarrow> None)"

text \<open>\<^verbatim>\<open>var Foo = (function () { a; b; })();\<close>\<close>

definition ex_plain_node :: jsval where
  "ex_plain_node = declarator ''Foo''
     (call (func ''FunctionExpression'' JNull [] [expr_stmt (ident ''a''), expr_stmt (ident ''b'')]) [])"

text \<open>\<^verbatim>\<open>var Foo = (function () { })();\<close>\<close>

definition ex_empty_node :: jsval where
  "ex_empty_node = declarator ''Foo'' (call (func ''FunctionExpression'' JNull [] []) [])"

text \<open>
  \<^verbatim>\<open>function Bar(a, b) { var _this; _this = _Foo.call(this, a, b) || this; _this.x = a; return _this; }\<close>
\<close>

definition ex_ctor :: jsval where
  "ex_ctor = func ''FunctionDeclaration'' (ident ''Bar'') [ident ''a'', ident ''b'']
     [var_decl [declarator ''_this'' JNull],
      expr_stmt (assign (ident ''_this'')
         (logical_or (call (member (ident ''_Foo'') ''call'') [this_node, ident ''a'', ident ''b''])
                     this_node)),
      expr_stmt (assign (member (ident ''_this'') ''x'') (ident ''a'')),
      return_stmt (ident ''_this'')]"

text \<open>\<^verbatim>\<open>_proto.get = function () { var self = this; var p = this.props; return p.z(self.y); };\<close>\<close>

definition ex_method :: jsval where
  "ex_method = expr_stmt (assign (member (ident ''_proto'') ''get'')
      (func ''FunctionExpression'' JNull []
        [var_decl [declarator ''self'' this_node],
         var_decl [declarator ''p'' (member this_node ''props'')],
         return_stmt (call (member (ident ''p'') ''z'') [member (ident ''self'') ''y''])]))"

text \<open>
  \<^verbatim>\<open>function (_Foo) { _inherits(Bar, _Foo); function Bar ...; var _proto = Bar.prototype; _proto.get = ...; return Bar; }\<close>
\<close>

definition ex_factory :: jsval where
  "ex_factory = func ''FunctionExpression'' JNull [ident ''_Foo'']
     [expr_stmt (call (ident ''_inherits'') [ident ''Bar'', ident ''_Foo'']),
      ex_ctor,
      var_decl [declarator ''_proto'' (member (ident ''Bar'') ''prototype'')],
      ex_method,
      return_stmt (ident ''Bar'')]"

text \<open>\<^verbatim>\<open>Bar = (function (_Foo) { ... })(Foo)\<close>\<close>

definition ex_node :: jsval where
  "ex_node = declarator ''Bar'' (call ex_factory [ident ''Foo''])"

definition ex_context :: ClassParsingContext where
  "ex_context = \<lparr> name = JStr ''Bar'', superClass = ident ''Foo'', protoIdentifier = JStr ''_proto'',
                  classConstructor = ex_ctor, functionBody = field (field ex_factory ''body'') ''body'',
                  walkBase = JObj [] \<rparr>"

text \<open>\<^verbatim>\<open>Bar = new ((function (_Foo) { ... })(Foo))()\<close> and a sibling declarator \<^verbatim>\<open>k = one\<close>\<close>

definition new_expr :: "jsval \<Rightarrow> jsval list \<Rightarrow> jsval" where
  "new_expr c as = JObj [(''type'', JStr ''NewExpression''), (''callee'', c), (''arguments'', JArr as)]"

definition paren :: "jsval \<Rightarrow> jsval" where
  "paren e = JObj [(''type'', JStr ''ParenthesizedExpression''), (''expression'', e)]"

definition ex_new_node :: jsval where
  "ex_new_node = declarator ''Bar'' (new_expr (paren (call ex_factory [ident ''Foo''])) [])"

definition ex_sibling :: jsval where
  "ex_sibling = declarator ''k'' (ident ''one'')"

text \<open>\<^verbatim>\<open>x = (function () { var a = one; return a; })()\<close>, an ordinary function call\<close>

definition ex_iife_node :: jsval where
  "ex_iife_node = declarator ''x''
     (call (func ''FunctionExpression'' JNull []
              [var_decl [declarator ''a'' (ident ''one'')], return_stmt (ident ''a'')]) [])"

text \<open>
  \<^verbatim>\<open>function (_Foo) { _inherits(Bar, _Foo); function Bar() { return one; } var _proto = Bar.prototype; return Bar; }\<close>:
  a factory whose constructor is not reconstructed and which assigns no method, applied
  to \<open>Foo\<close> in both shapes
\<close>

definition ex_bare_factory :: jsval where
  "ex_bare_factory = func ''FunctionExpression'' JNull [ident ''_Foo'']
     [expr_stmt (call (ident ''_inherits'') [ident ''Bar'', ident ''_Foo'']),
      func ''FunctionDeclaration'' (ident ''Bar'') [] [return_stmt (ident ''one'')],
      var_decl [declarator ''_proto'' (member (ident ''Bar'') ''prototype'')],
      return_stmt (ident ''Bar'')]"

definition ex_bare_node :: jsval where
  "ex_bare_node = declarator ''Bar'' (call ex_bare_factory [ident ''Foo''])"

definition ex_bare_new_node :: jsval where
  "ex_bare_new_node = declarator ''Bar'' (new_expr (paren (call ex_bare_factory [ident ''Foo''])) [])"

text \<open>
  \<^verbatim>\<open>Bar = (function (_Foo) { _inherits(Bar, _Foo); function Bar() { } var _proto = Bar.prototype; _proto.get = function () { return one; }; return Bar; })(Foo)\<close>:
  an empty constructor and one method without a member expression
\<close>

definition ex_small_node :: jsval where
  "ex_small_node = declarator ''Bar''
     (call (func ''FunctionExpression'' JNull [ident ''_Foo'']
              [expr_stmt (call (ident ''_inherits'') [ident ''Bar'', ident ''_Foo'']),
               func ''FunctionDeclaration'' (ident ''Bar'') [] [],
               var_decl [declarator ''_proto'' (member (ident ''Bar'') ''prototype'')],
               expr_stmt (assign (member (ident ''_proto'') ''get'')
                  (func ''FunctionExpression'' JNull [] [return_stmt (ident ''one'')])),
               return_stmt (ident ''Bar'')])
           [ident ''Foo''])"

section \<open>The alias scan in the specification's words\<close>

text \<open>
  A declarator aliases \<open>this.p\<close> when it binds an identifier to a member expression with
  object \<open>this\<close> and property \<open>p\<close>. \<open>alias_names p\<close> lists the names that the top-level
  variable declarations of a body bind to \<open>this.p\<close>, in source order.
\<close>

definition aliases_this :: "string \<Rightarrow> jsval \<Rightarrow> bool" where
  "aliases_this p d =
     (let init = field d ''init'' in
      isValidIdentifier (field d ''id'') \<and> isValidMemberExpression init
      \<and> has_type (field init ''object'') ''ThisExpression''
      \<and> isValidIdentifier (field init ''property'')
      \<and> field (field init ''property'') ''name'' = JStr p)"

definition declarators_of :: "jsval \<Rightarrow> jsval list" where
  "declarators_of n =
     (if has_type n ''VariableDeclaration''
      then (case iterate (field n ''declarations'') of Some ds \<Rightarrow> ds | None \<Rightarrow> [])
      else [])"

definition alias_names :: "string \<Rightarrow> jsval list \<Rightarrow> jsval list" where
  "alias_names p ns =
     map (\<lambda>d. field (field d ''id'') ''name'')
       (filter (aliases_this p) (concat (map declarators_of ns)))"

definition last_or :: "jsval \<Rightarrow> jsval list \<Rightarrow> jsval" where
  "last_or v xs = (if xs = [] then v else last xs)"

text \<open>\<^verbatim>\<open>var a = this.props; var b = this.props;\<close>\<close>

definition ex_two_aliases :: "jsval list" where
  "ex_two_aliases = [var_decl [declarator ''a'' (member this_node ''props'')],
                     var_decl [declarator ''b'' (member this_node ''props'')]]"

text \<open>\<^verbatim>\<open>function () { var self = this; self.y; }\<close>\<close>

definition ex_self_function :: jsval where
  "ex_self_function = func ''FunctionExpression'' JNull []
     [var_decl [declarator ''self'' this_node], expr_stmt (member (ident ''self'') ''y'')]"

text \<open>\<^verbatim>\<open>function () { var self = this; }\<close>\<close>

definition ex_self_only :: jsval where
  "ex_self_only = func ''FunctionExpression'' JNull [] [var_decl [declarator ''self'' this_node]]"

text \<open>\<^verbatim>\<open>function () { var p = this.props; p.z; }\<close>\<close>

definition ex_props_function :: jsval where
  "ex_props_function = func ''FunctionExpression'' JNull []
     [var_decl [declarator ''p'' (member this_node ''props'')],
      expr_stmt (member (ident ''p'') ''z'')]"

text \<open>A base visitor to pass to the entry point.\<close>

definition ex_walk_base :: jsval where
  "ex_walk_base = JObj [(''Identifier'', JStr ''base'')]"

section \<open>Nodes inside a tree\<close>

text \<open>\<open>has_node Q v\<close>: some object at or below \<open>v\<close> satisfies \<open>Q\<close>.\<close>

fun has_node :: "(jsval \<Rightarrow> bool) \<Rightarrow> jsval \<Rightarrow> bool"
  and has_node_list :: "(jsval \<Rightarrow> bool) \<Rightarrow> jsval list \<Rightarrow> bool"
  and has_node_fields :: "(jsval \<Rightarrow> bool) \<Rightarrow> (string \<times> jsval) list \<Rightarrow> bool"
where
  "has_node Q (JObj al) = (Q (JObj al) \<or> has_node_fields Q al)"
| "has_node Q (JArr xs) = has_node_list Q xs"
| "has_node Q JUndef = False"
| "has_node Q JNull = False"
| "has_node Q (JBool b) = False"
| "has_node Q (JNum n) = False"
| "has_node Q (JStr s) = False"
| "has_node_list Q [] = False"
| "has_node_list Q (x # xs) = (has_node Q x \<or> has_node_list Q xs)"
| "has_node_fields Q [] = False"
| "has_node_fields Q (kv # al) = (has_node Q (snd kv) \<or> has_node_fields Q al)"

text \<open>
  A member expression of the form \<open>this.constructor\<close>: its object is \<open>this\<close>, its
  property is the identifier \<open>constructor\<close> (computed or not).
\<close>

definition is_this_constructor :: "jsval \<Rightarrow> bool" where
  "is_this_constructor n =
     (isValidMemberExpression n \<and> has_type (field n ''object'') ''ThisExpression''
      \<and> isValidIdentifier (field n ''property'')
      \<and> field (field n ''property'') ''name'' = JStr ''constructor'')"

text \<open>\<^verbatim>\<open>function () { return this.constructor.name; }\<close>\<close>

definition ex_constructor_name :: jsval where
  "ex_constructor_name = func ''FunctionExpression'' JNull []
     [return_stmt (member (member this_node ''constructor'') ''name'')]"

section \<open>Basic facts\<close>

lemma nullish_has_type [simp]: "nullish v \<Longrightarrow> \<not> has_type v t"
  by (cases v) (auto simp: has_type_def)

lemma nullish_field [simp]: "nullish v \<Longrightarrow> field v k = JUndef"
  by (cases v) auto

section \<open>Objects with a property set\<close>

lemma field_with_prop_same [simp]: "field (with_prop v k x) k = x"
  by (simp add: with_prop_def update_conv')

lemma field_with_prop_other [simp]:
  "k' \<noteq> k \<Longrightarrow> field (with_prop v k x) k' = field (JObj (spread v)) k'"
  by (simp add: with_prop_def update_conv')

lemma has_type_obj: "has_type v t \<Longrightarrow> JObj (spread v) = v"
  by (cases v) (auto simp: has_type_def split: if_splits)

lemma has_type_truthy: "has_type v t \<Longrightarrow> truthy v"
  by (cases v) (auto simp: has_type_def split: if_splits)

lemma truthy_not_nullish: "truthy v \<Longrightarrow> \<not> nullish v"
  by (cases v) auto

lemma truthy_with_prop [simp]: "truthy (with_prop v k x)" "\<not> nullish (with_prop v k x)"
  by (simp_all add: with_prop_def)

lemma has_type_with_prop [simp]:
  "k \<noteq> ''type'' \<Longrightarrow> has_type (with_prop v k x) t = has_type (JObj (spread v)) t"
  by (simp add: has_type_def)

lemma as_array_Some: "as_array v = Some xs \<Longrightarrow> v = JArr xs"
  by (cases v) auto

section \<open>Context extraction\<close>

lemma superClass_of_eq:
  assumes "superClass_of pr cc fb outer = Some sc"
  shows "sc = (if inherits_idiom pr cc fb then elem (field outer ''arguments'') 0 else JNull)"
  using assms
  by (auto simp: superClass_of_def inherits_idiom_def get_def idx_def helper_call_matches_def Let_def
      split: if_splits bind_splits)

lemma buildClassContext_parts:
  assumes "buildClassContext pr node parent nm = Some ctx"
  shows "functionBody ctx = factory_body Class node"
    and "classConstructor ctx = elem (factory_body Class node) 1"
    and "superClass_of pr (classConstructor ctx) (functionBody ctx) (outer_call Class node)
           = Some (superClass ctx)"
  using assms
  by (auto simp: buildClassContext_def factory_body_def outer_call_def get_def idx_def
           split: if_splits bind_splits)

lemma buildNewClassContext_parts:
  assumes "buildNewClassContext pr node parent nm = Some ctx"
  shows "functionBody ctx = factory_body NewClass node"
    and "classConstructor ctx = elem (factory_body NewClass node) 1"
    and "superClass_of pr (classConstructor ctx) (functionBody ctx) (outer_call NewClass node)
           = Some (superClass ctx)"
  using assms
  by (auto simp: buildNewClassContext_def factory_body_def outer_call_def get_def idx_def
           split: if_splits bind_splits)

lemma buildParsingContext_parts:
  assumes "buildParsingContext pr node parent ct = Some ctx"
  shows "functionBody ctx = factory_body ct node"
    and "classConstructor ctx = elem (factory_body ct node) 1"
    and "superClass_of pr (classConstructor ctx) (functionBody ctx) (outer_call ct node)
           = Some (superClass ctx)"
proof -
  from assms obtain nm where
    "(ct = Class \<and> buildClassContext pr node parent nm = Some ctx)
     \<or> (ct = NewClass \<and> buildNewClassContext pr node parent nm = Some ctx)"
    by (cases ct) (auto simp: buildParsingContext_def Let_def split: option.splits if_splits)
  then show "functionBody ctx = factory_body ct node"
    and "classConstructor ctx = elem (factory_body ct node) 1"
    and "superClass_of pr (classConstructor ctx) (functionBody ctx) (outer_call ct node)
           = Some (superClass ctx)"
    by (auto dest: buildClassContext_parts buildNewClassContext_parts)
qed

text \<open>
  C6. For a candidate whose context is built, the context holds the statement list of the
  node's factory function and, as the constructor, its second statement. \<open>superClass\<close> is
  the first argument of the outer call expression (DirectFactory) or of the parenthesized
  call inside the \<open>new\<close> expression (WrappedFactory) when the inheritance-helper idiom
  holds of that constructor and that statement list, and \<open>null\<close> otherwise. The argument
  list of a call holds no \<open>null\<close>, so \<open>superClass\<close> is non-null exactly when the idiom
  holds.
\<close>

theorem superClass_extraction:
  assumes "buildParsingContext pr node parent ct = Some ctx"
  shows "functionBody ctx = factory_body ct node
       \<and> classConstructor ctx = elem (factory_body ct node) 1
       \<and> superClass ctx =
           (if inherits_idiom pr (elem (factory_body ct node) 1) (factory_body ct node)
            then elem (field (outer_call ct node) ''arguments'') 0 else JNull)
       \<and> (elem (field (outer_call ct node) ''arguments'') 0 \<noteq> JNull \<longrightarrow>
            (superClass ctx \<noteq> JNull)
              = inherits_idiom pr (elem (factory_body ct node) 1) (factory_body ct node))"
proof -
  note p = buildParsingContext_parts [OF assms]
  from superClass_of_eq [OF p(3)] p(1) p(2) show ?thesis by simp
qed

theorem superClass_extraction_witness:
  "buildParsingContext name_printer ex_node (var_decl [ex_node]) Class \<noteq> None
   \<and> superClass (the (buildParsingContext name_printer ex_node (var_decl [ex_node]) Class))
       = ident ''Foo''
   \<and> buildParsingContext name_printer ex_new_node (var_decl [ex_sibling, ex_new_node]) NewClass
       \<noteq> None
   \<and> superClass (the (buildParsingContext name_printer ex_new_node
                         (var_decl [ex_sibling, ex_new_node]) NewClass))
       = ident ''Foo''
   \<and> buildParsingContext name_printer ex_plain_node (var_decl [ex_plain_node]) Class \<noteq> None
   \<and> superClass (the (buildParsingContext name_printer ex_plain_node
                         (var_decl [ex_plain_node]) Class))
       = JNull"
proof -
  have "buildParsingContext name_printer ex_node (var_decl [ex_node]) Class \<noteq> None"
    by code_simp
  then obtain ctx where
    c: "buildParsingContext name_printer ex_node (var_decl [ex_node]) Class = Some ctx"
    by blast
  have i: "inherits_idiom name_printer (elem (factory_body Class ex_node) 1)
             (factory_body Class ex_node)"
    by code_simp
  have e: "elem (field (outer_call Class ex_node) ''arguments'') 0 = ident ''Foo''"
    by code_simp
  have "buildParsingContext name_printer ex_new_node (var_decl [ex_sibling, ex_new_node]) NewClass
          \<noteq> None"
    by code_simp
  then obtain ctx' where
    c': "buildParsingContext name_printer ex_new_node (var_decl [ex_sibling, ex_new_node]) NewClass
           = Some ctx'"
    by blast
  have i': "inherits_idiom name_printer (elem (factory_body NewClass ex_new_node) 1)
              (factory_body NewClass ex_new_node)"
    by code_simp
  have e': "elem (field (outer_call NewClass ex_new_node) ''arguments'') 0 = ident ''Foo''"
    by code_simp
  have "buildParsingContext name_printer ex_plain_node (var_decl [ex_plain_node]) Class \<noteq> None"
    by code_simp
  then obtain ctx'' where
    c'': "buildParsingContext name_printer ex_plain_node (var_decl [ex_plain_node]) Class
            = Some ctx''"
    by blast
  have i'': "\<not> inherits_idiom name_printer (elem (factory_body Class ex_plain_node) 1)
               (factory_body Class ex_plain_node)"
    by code_simp
  from superClass_extraction [OF c] superClass_extraction [OF c']
    superClass_extraction [OF c''] i e i' e' i'' c c' c''
  show ?thesis by simp
qed

section \<open>The failure surface of the entry point\<close>

lemma init_callee_types_truthy: "init_callee_types node t c \<Longrightarrow> truthy node"
  by (cases node) (auto simp: init_callee_types_def Let_def has_type_def split: if_splits)

lemma findClassType_truthy:
  assumes "findClassType node parent = Some (Some ct)"
  shows "truthy node \<and> truthy parent"
  using assms
  by (auto simp: findClassType_def split: if_splits
           intro: has_type_truthy init_callee_types_truthy)

lemma parse_matched:
  assumes "truthy wb" "findClassType node parent = Some (Some ct)"
    "buildParsingContext pr node parent ct = Some ctx"
  shows "parse pr node parent wb = parseClassByType ct node parent ctx"
  using assms findClassType_truthy [OF assms(2)] by (simp add: parse_def)

text \<open>
  The failure paths that are handled: \<open>parse\<close> returns \<open>parent\<close> unchanged, raising
  nothing and calling the walker never, when \<open>node\<close>, \<open>parent\<close> or \<open>walkBase\<close> is
  absent, when neither shape matches, and when the context extraction fails or raises.
\<close>

lemma parse_returns_parent:
  assumes "\<not> truthy node \<or> \<not> truthy parent \<or> \<not> truthy wb
           \<or> findClassType node parent = Some None
           \<or> (\<exists>ct. findClassType node parent = Some (Some ct)
                    \<and> buildParsingContext pr node parent ct = None)"
  shows "parse pr node parent wb = Some ([], parent)"
  using assms by (auto simp: parse_def)

lemma parse_empty_factory:
  "parse name_printer ex_empty_node (var_decl [ex_empty_node]) (JObj [])
     = Some ([], var_decl [ex_empty_node])"
  by code_simp

lemma buildClassBody_raises:
  assumes "nullish (field cc ''body'')"
  shows "buildClassBody pid cc fb ctx = None"
  using assms by (simp add: buildClassBody_def get_def)

text \<open>
  C1. An exception does leave \<open>parse\<close>. The try/catch ends with buildParsingContext; once
  a shape has matched and the context is built, buildClassBody reads
  \<open>classConstructor.body.body[0]\<close> of the second statement of the factory function without
  a guard. When that statement has no \<open>body\<close>, as in every matched call of a function
  whose second statement is not a function, the TypeError is raised outside the try/catch
  and \<open>parse\<close> does not return \<open>parent\<close>.
\<close>

theorem parse_raises_after_context:
  assumes wb: "truthy wb"
    and ct: "findClassType node parent = Some (Some ct)"
    and ctx: "buildParsingContext pr node parent ct \<noteq> None"
    and body: "nullish (field (elem (factory_body ct node) 1) ''body'')"
  shows "parse pr node parent wb = None"
proof -
  from ctx obtain c where c: "buildParsingContext pr node parent ct = Some c" by blast
  from buildParsingContext_parts(2) [OF c] body
  have "nullish (field (classConstructor c) ''body'')" by simp
  then have "buildClassBody (protoIdentifier c) (classConstructor c) (functionBody c) c = None"
    by (rule buildClassBody_raises)
  then have "parseClassByType ct node parent c = None"
    by (cases ct) (simp_all add: parseClassByType_def parseRegularClass_def parseNewClass_def)
  with parse_matched [OF wb ct c] show ?thesis by simp
qed

text \<open>\<^verbatim>\<open>var x = (function () { var a = one; return a; })();\<close> is such an input.\<close>

theorem parse_raises_after_context_witness:
  "truthy (JObj [])
   \<and> findClassType ex_iife_node (var_decl [ex_iife_node]) = Some (Some Class)
   \<and> buildParsingContext name_printer ex_iife_node (var_decl [ex_iife_node]) Class \<noteq> None
   \<and> nullish (field (elem (factory_body Class ex_iife_node) 1) ''body'')
   \<and> parse name_printer ex_iife_node (var_decl [ex_iife_node]) (JObj []) = None"
proof -
  have w: "truthy (JObj [])" by simp
  have c: "findClassType ex_iife_node (var_decl [ex_iife_node]) = Some (Some Class)"
    by code_simp
  have x: "buildParsingContext name_printer ex_iife_node (var_decl [ex_iife_node]) Class \<noteq> None"
    by code_simp
  have b: "nullish (field (elem (factory_body Class ex_iife_node) 1) ''body'')"
    by code_simp
  from parse_raises_after_context [OF w c x b] w c x b show ?thesis by simp
qed

section \<open>The two results of a rewrite\<close>

lemma findClassType_NewClass:
  assumes "findClassType node parent = Some (Some NewClass)"
  shows "has_type parent ''VariableDeclaration''"
    and "init_callee_types node ''NewExpression'' ''ParenthesizedExpression''"
  using assms by (auto simp: findClassType_def split: if_splits)

lemma remove_first_split:
  "node \<notin> set pre \<Longrightarrow> remove_first node (pre @ node # post) = pre @ post"
  by (induction pre) auto

lemma field_class_declaration [simp]:
  "field (with_props v (class_declaration nm sc body)) ''type'' = JStr ''ClassDeclaration''"
  by (simp add: with_props_def class_declaration_def update_conv')

lemma has_type_class_declaration [simp]:
  "has_type (JObj (class_declaration nm sc body)) ''ClassDeclaration''"
  by (simp add: has_type_def class_declaration_def)

lemma parseRegularClass_type:
  assumes "parseRegularClass node parent ctx = Some (l, out)"
  shows "has_type out ''ClassDeclaration''"
  using assms
  by (auto simp: parseRegularClass_def has_type_def split: bind_splits)

lemma parseNewClass_shape:
  assumes "parseNewClass node parent ctx = Some (l, out)"
  shows "\<exists>ds classBody. field parent ''declarations'' = JArr ds \<and>
           out = with_prop parent ''declarations''
                   (JArr (remove_first node ds
                      @ [rewritten_declarator node
                           (JObj (class_declaration (name ctx) (superClass ctx) classBody))]))"
  using assms
  by (fastforce simp: parseNewClass_def rewritten_declarator_def Let_def
           split: bind_splits dest!: as_array_Some)

text \<open>Neither shape matches a class declaration, whatever the node.\<close>

lemma parse_class_declaration:
  assumes "has_type out ''ClassDeclaration''"
  shows "parse pr n out wb = Some ([], out)"
proof (cases "truthy n \<and> truthy out \<and> truthy wb")
  case True
  then have "\<not> nullish n" "\<not> nullish out" by (simp_all add: truthy_not_nullish)
  then show ?thesis using assms
    by (simp add: parse_def findClassType_def has_type_def)
next
  case False
  then show ?thesis by (auto simp: parse_def)
qed

text \<open>Neither shape matches a declarator whose \<open>new\<close> expression has a class as its callee.\<close>

lemma parse_rewritten_declarator:
  assumes p: "has_type parent ''VariableDeclaration''"
    and n: "init_callee_types node ''NewExpression'' ''ParenthesizedExpression''"
    and c: "has_type cls ''ClassDeclaration''"
  shows "parse pr (rewritten_declarator node cls) (with_prop parent ''declarations'' ds) wb
           = Some ([], with_prop parent ''declarations'' ds)"
proof -
  have i: "has_type (field node ''init'') ''NewExpression''"
    using n by (simp add: init_callee_types_def Let_def)
  have "\<not> init_callee_types (rewritten_declarator node cls) ''CallExpression'' ''FunctionExpression''"
    using i has_type_obj [OF i]
    by (auto simp: init_callee_types_def rewritten_declarator_def Let_def has_type_def)
  moreover
  have "\<not> init_callee_types (rewritten_declarator node cls) ''NewExpression'' ''ParenthesizedExpression''"
    using c
    by (auto simp: init_callee_types_def rewritten_declarator_def Let_def has_type_def)
  ultimately show ?thesis
    by (simp add: parse_def findClassType_def rewritten_declarator_def)
qed

text \<open>
  C8. The result of a rewrite is not rewritten again. A DirectFactory rewrite returns a
  class declaration, on which \<open>parse\<close> returns its \<open>parent\<close> argument for every node. A
  WrappedFactory rewrite returns the variable declaration whose last declarator is the
  rewritten one, with a class declaration as the callee of its \<open>new\<close> expression;
  \<open>parse\<close> on that declarator and that declaration returns the declaration. In both
  cases the walker is not called.
\<close>

theorem rewrite_idempotent:
  assumes wb: "truthy wb"
    and ct: "findClassType node parent = Some (Some ct)"
    and ctx: "buildParsingContext pr node parent ct = Some ctx"
    and out: "parse pr node parent wb = Some (l, out)"
  shows "(ct = Class \<longrightarrow> has_type out ''ClassDeclaration''
            \<and> (\<forall>pr' n wb'. parse pr' n out wb' = Some ([], out)))
       \<and> (ct = NewClass \<longrightarrow>
            (\<exists>ds d. field out ''declarations'' = JArr (ds @ [d])
               \<and> has_type (field (field d ''init'') ''callee'') ''ClassDeclaration''
               \<and> (\<forall>pr' wb'. parse pr' d out wb' = Some ([], out))))"
proof (cases ct)
  case Class
  with parse_matched [OF wb ct ctx] out
  have "parseRegularClass node parent ctx = Some (l, out)"
    by (simp add: parseClassByType_def)
  then have "has_type out ''ClassDeclaration''" by (rule parseRegularClass_type)
  with Class show ?thesis by (simp add: parse_class_declaration)
next
  case NewClass
  with parse_matched [OF wb ct ctx] out
  have "parseNewClass node parent ctx = Some (l, out)"
    by (simp add: parseClassByType_def)
  from parseNewClass_shape [OF this] obtain ds classBody where
    o: "out = with_prop parent ''declarations''
              (JArr (remove_first node ds
                 @ [rewritten_declarator node
                      (JObj (class_declaration (name ctx) (superClass ctx) classBody))]))"
    by blast
  let ?d = "rewritten_declarator node (JObj (class_declaration (name ctx) (superClass ctx) classBody))"
  from ct NewClass have p: "has_type parent ''VariableDeclaration''"
    and n: "init_callee_types node ''NewExpression'' ''ParenthesizedExpression''"
    by (simp_all add: findClassType_NewClass)
  have 1: "field out ''declarations'' = JArr (remove_first node ds @ [?d])"
    by (simp add: o)
  have 2: "has_type (field (field ?d ''init'') ''callee'') ''ClassDeclaration''"
    by (simp add: rewritten_declarator_def)
  have 3: "\<forall>pr' wb'. parse pr' ?d out wb' = Some ([], out)"
    unfolding o using parse_rewritten_declarator [OF p n has_type_class_declaration] by blast
  from NewClass 1 2 3 show ?thesis by blast
qed

theorem rewrite_idempotent_witness:
  "parse name_printer ex_bare_node (var_decl [ex_bare_node]) (JObj []) \<noteq> None
   \<and> parse name_printer ex_bare_node
        (snd (the (parse name_printer ex_bare_node (var_decl [ex_bare_node]) (JObj [])))) (JObj [])
       = Some ([], snd (the (parse name_printer ex_bare_node (var_decl [ex_bare_node]) (JObj []))))
   \<and> parse name_printer ex_bare_new_node (var_decl [ex_bare_new_node]) (JObj []) \<noteq> None
   \<and> (\<exists>d. field (snd (the (parse name_printer ex_bare_new_node (var_decl [ex_bare_new_node])
                               (JObj [])))) ''declarations'' = JArr [d]
          \<and> parse name_printer d
               (snd (the (parse name_printer ex_bare_new_node (var_decl [ex_bare_new_node])
                            (JObj [])))) (JObj [])
             = Some ([], snd (the (parse name_printer ex_bare_new_node
                                     (var_decl [ex_bare_new_node]) (JObj [])))))"
proof -
  have "parse name_printer ex_bare_node (var_decl [ex_bare_node]) (JObj []) \<noteq> None"
    by code_simp
  then obtain l out where
    o: "parse name_printer ex_bare_node (var_decl [ex_bare_node]) (JObj []) = Some (l, out)"
    by fastforce
  have w: "truthy (JObj [])" by simp
  have c: "findClassType ex_bare_node (var_decl [ex_bare_node]) = Some (Some Class)"
    by code_simp
  have "buildParsingContext name_printer ex_bare_node (var_decl [ex_bare_node]) Class \<noteq> None"
    by code_simp
  then obtain ctx where
    x: "buildParsingContext name_printer ex_bare_node (var_decl [ex_bare_node]) Class = Some ctx"
    by blast
  have "parse name_printer ex_bare_new_node (var_decl [ex_bare_new_node]) (JObj []) \<noteq> None"
    by code_simp
  then obtain l' out' where
    o': "parse name_printer ex_bare_new_node (var_decl [ex_bare_new_node]) (JObj [])
           = Some (l', out')"
    by fastforce
  have "field (field (snd (the (parse name_printer ex_bare_new_node
                                  (var_decl [ex_bare_new_node]) (JObj []))))
                 ''declarations'') ''length'' = JNum 1"
    by code_simp
  with o' have len: "field (field out' ''declarations'') ''length'' = JNum 1" by simp
  have c': "findClassType ex_bare_new_node (var_decl [ex_bare_new_node]) = Some (Some NewClass)"
    by code_simp
  have "buildParsingContext name_printer ex_bare_new_node (var_decl [ex_bare_new_node]) NewClass
          \<noteq> None"
    by code_simp
  then obtain ctx' where
    x': "buildParsingContext name_printer ex_bare_new_node (var_decl [ex_bare_new_node]) NewClass
           = Some ctx'"
    by blast
  from rewrite_idempotent [OF w c' x' o'] obtain ds d where
    d: "field out' ''declarations'' = JArr (ds @ [d])"
       "parse name_printer d out' (JObj []) = Some ([], out')"
    by blast
  from d(1) len have "ds = []" by simp
  with d have "\<exists>d. field out' ''declarations'' = JArr [d]
                 \<and> parse name_printer d out' (JObj []) = Some ([], out')"
    by auto
  with rewrite_idempotent [OF w c x o] o o' show ?thesis by simp
qed

section \<open>The declarators of a WrappedFactory result\<close>

text \<open>
  C9. For the WrappedFactory shape the result is \<open>parent\<close> with a new list of
  declarators: the siblings of \<open>node\<close>, unchanged and in their order, and then the
  rewritten declarator, last. Every other property of \<open>parent\<close> is kept.
\<close>

theorem wrapped_factory_declarators:
  assumes wb: "truthy wb"
    and ct: "findClassType node parent = Some (Some NewClass)"
    and ctx: "buildParsingContext pr node parent NewClass = Some ctx"
    and out: "parse pr node parent wb = Some (l, out)"
    and ds: "field parent ''declarations'' = JArr (pre @ node # post)"
    and first: "node \<notin> set pre"
  shows "\<exists>cls. has_type cls ''ClassDeclaration''
           \<and> field out ''declarations'' = JArr (pre @ post @ [rewritten_declarator node cls])
           \<and> (\<forall>k. k \<noteq> ''declarations'' \<longrightarrow> field out k = field parent k)"
proof -
  from parse_matched [OF wb ct ctx] out
  have "parseNewClass node parent ctx = Some (l, out)"
    by (simp add: parseClassByType_def)
  from parseNewClass_shape [OF this] ds obtain classBody where
    o: "out = with_prop parent ''declarations''
              (JArr (remove_first node (pre @ node # post)
                 @ [rewritten_declarator node
                      (JObj (class_declaration (name ctx) (superClass ctx) classBody))]))"
    by auto
  have p: "JObj (spread parent) = parent"
    using findClassType_NewClass(1) [OF ct] by (rule has_type_obj)
  show ?thesis
    using o p remove_first_split [OF first, of post]
    by (intro exI [of _ "JObj (class_declaration (name ctx) (superClass ctx) classBody)"]) simp
qed

text \<open>In \<^verbatim>\<open>var Bar = new (...)(), k = one;\<close> the rewritten declarator moves behind \<open>k\<close>.\<close>

theorem wrapped_factory_declarators_witness:
  "\<exists>cls. has_type cls ''ClassDeclaration''
     \<and> field (snd (the (parse name_printer ex_bare_new_node
                          (var_decl [ex_bare_new_node, ex_sibling]) (JObj []))))
          ''declarations''
        = JArr [ex_sibling, rewritten_declarator ex_bare_new_node cls]"
proof -
  have "parse name_printer ex_bare_new_node (var_decl [ex_bare_new_node, ex_sibling]) (JObj [])
          \<noteq> None"
    by code_simp
  then obtain l out where
    o: "parse name_printer ex_bare_new_node (var_decl [ex_bare_new_node, ex_sibling]) (JObj [])
          = Some (l, out)"
    by fastforce
  have w: "truthy (JObj [])" by simp
  have c: "findClassType ex_bare_new_node (var_decl [ex_bare_new_node, ex_sibling])
             = Some (Some NewClass)"
    by code_simp
  have "buildParsingContext name_printer ex_bare_new_node
          (var_decl [ex_bare_new_node, ex_sibling]) NewClass \<noteq> None"
    by code_simp
  then obtain ctx where
    x: "buildParsingContext name_printer ex_bare_new_node
          (var_decl [ex_bare_new_node, ex_sibling]) NewClass = Some ctx"
    by blast
  have d: "field (var_decl [ex_bare_new_node, ex_sibling]) ''declarations''
             = JArr ([] @ ex_bare_new_node # [ex_sibling])"
    by (simp add: var_decl_def)
  have f: "ex_bare_new_node \<notin> set []" by simp
  from wrapped_factory_declarators [OF w c x o d f] o show ?thesis by auto
qed

section \<open>Constructor reconstruction: the empty body\<close>

text \<open>
  C10. A constructor function whose statement list is empty comes back from
  parseConstructor unchanged, and the walker has not been called: no pattern is tested,
  no parameter is rewritten, no nested function is processed.
\<close>

theorem parseConstructor_empty_body:
  assumes "field (field fe ''body'') ''body'' = JArr []"
  shows "parseConstructor fe ctx = Some ([], fe)"
proof -
  have "\<not> nullish fe" "\<not> nullish (field fe ''body'')"
    using assms by (cases fe; cases "field fe ''body''"; simp)+
  then show ?thesis using assms by (simp add: parseConstructor_def get_def)
qed

theorem parseConstructor_empty_body_witness:
  "field (field (func ''FunctionExpression'' JNull [ident ''a''] []) ''body'') ''body'' = JArr []
   \<and> parseConstructor (func ''FunctionExpression'' JNull [ident ''a''] []) ex_context
       = Some ([], func ''FunctionExpression'' JNull [ident ''a''] [])"
proof -
  have h: "field (field (func ''FunctionExpression'' JNull [ident ''a''] []) ''body'') ''body'' = JArr []"
    by (simp add: func_def)
  from parseConstructor_empty_body [OF h] h show ?thesis by simp
qed

section \<open>The alias scan\<close>

lemma extract_declarator_props:
  assumes "extract_declarator r d = Some r'"
  shows "thisProps r' = (if aliases_this ''props'' d then field (field d ''id'') ''name''
                         else thisProps r)"
    and "thisConstructor r' = (if aliases_this ''constructor'' d then field (field d ''id'') ''name''
                               else thisConstructor r)"
    and "thisMirror r' = thisMirror r"
  using assms
  by (auto simp: extract_declarator_def aliases_this_def Let_def get_def
                 isValidMemberExpression_def has_type_def
           split: if_splits bind_splits)

lemma extract_declarators_last:
  assumes "extract_declarators r ds = Some r'"
  shows "thisProps r' = last_or (thisProps r)
           (map (\<lambda>d. field (field d ''id'') ''name'') (filter (aliases_this ''props'') ds))
       \<and> thisConstructor r' = last_or (thisConstructor r)
           (map (\<lambda>d. field (field d ''id'') ''name'') (filter (aliases_this ''constructor'') ds))
       \<and> thisMirror r' = thisMirror r"
  using assms
proof (induction ds arbitrary: r)
  case Nil
  then show ?case by (simp add: last_or_def)
next
  case (Cons d ds)
  then obtain r1 where a: "extract_declarator r d = Some r1"
    and b: "extract_declarators r1 ds = Some r'"
    by (auto split: bind_splits)
  from Cons.IH [OF b] extract_declarator_props [OF a] show ?case
    by (auto simp: last_or_def)
qed

lemma last_or_append: "last_or v (xs @ ys) = last_or (last_or v xs) ys"
  by (simp add: last_or_def)

lemma iterate_declarators:
  "has_type n ''VariableDeclaration'' \<Longrightarrow> iterate (field n ''declarations'') = Some ds
     \<Longrightarrow> alias_names p [n]
          = map (\<lambda>d. field (field d ''id'') ''name'') (filter (aliases_this p) ds)"
  by (simp add: alias_names_def declarators_of_def)

lemma not_declaration_no_alias:
  "\<not> has_type n ''VariableDeclaration'' \<Longrightarrow> alias_names p [n] = []"
  by (simp add: alias_names_def declarators_of_def)

lemma extract_statement_last:
  assumes "extract_statement r n = Some r'"
  shows "thisProps r' = last_or (thisProps r) (alias_names ''props'' [n])
       \<and> thisConstructor r' = last_or (thisConstructor r) (alias_names ''constructor'' [n])
       \<and> thisMirror r' = thisMirror r"
proof (cases "has_type n ''VariableDeclaration''")
  case True
  with assms obtain ds where i: "iterate (field n ''declarations'') = Some ds"
    and e: "extract_declarators r ds = Some r'"
    by (auto simp: extract_statement_def get_def has_type_def split: if_splits bind_splits)
  from extract_declarators_last [OF e] show ?thesis
    by (simp add: iterate_declarators [OF True i])
next
  case False
  with assms have "r' = r"
    by (auto simp: extract_statement_def get_def has_type_def split: if_splits bind_splits)
  with False show ?thesis by (simp add: not_declaration_no_alias last_or_def)
qed

lemma alias_names_Cons: "alias_names p (n # ns) = alias_names p [n] @ alias_names p ns"
  by (simp add: alias_names_def)

lemma extract_statements_last:
  assumes "extract_statements r ns = Some r'"
  shows "thisProps r' = last_or (thisProps r) (alias_names ''props'' ns)
       \<and> thisConstructor r' = last_or (thisConstructor r) (alias_names ''constructor'' ns)
       \<and> thisMirror r' = thisMirror r"
  using assms
proof (induction ns arbitrary: r)
  case Nil
  then show ?case by (simp add: last_or_def alias_names_def)
next
  case (Cons n ns)
  then obtain r1 where a: "extract_statement r n = Some r1"
    and b: "extract_statements r1 ns = Some r'"
    by (auto split: bind_splits)
  from Cons.IH [OF b] extract_statement_last [OF a] show ?case
    by (simp add: alias_names_Cons [of _ n ns] last_or_append)
qed

text \<open>
  The branch that records an alias of \<open>this\<close> itself is never taken: it sits behind the
  test that the initializer is a member expression.
\<close>

lemma thisMirror_never_set:
  assumes "extractVariableReplacements fb = Some r"
  shows "thisMirror r = JUndef"
  using assms
  by (auto simp: extractVariableReplacements_def no_replacements_def
           dest!: extract_statements_last split: bind_splits)

text \<open>
  C4, as amended. The scan keeps one name for \<open>this.props\<close> and one for
  \<open>this.constructor\<close>. When several top-level declarators alias the same target, the
  last one in source order is recorded, and the earlier ones are not tracked.
\<close>

theorem last_alias_wins:
  assumes "extractVariableReplacements (JArr ns) = Some r"
  shows "thisProps r = last_or JUndef (alias_names ''props'' ns)
       \<and> thisConstructor r = last_or JUndef (alias_names ''constructor'' ns)"
  using assms extract_statements_last [of no_replacements ns r]
  by (simp add: extractVariableReplacements_def no_replacements_def)

theorem last_alias_wins_witness:
  "extractVariableReplacements (JArr ex_two_aliases) \<noteq> None
   \<and> thisProps (the (extractVariableReplacements (JArr ex_two_aliases))) = JStr ''b''"
proof -
  have "extractVariableReplacements (JArr ex_two_aliases) \<noteq> None" by code_simp
  then obtain r where r: "extractVariableReplacements (JArr ex_two_aliases) = Some r" by blast
  have "last_or JUndef (alias_names ''props'' ex_two_aliases) = JStr ''b''" by code_simp
  with last_alias_wins [OF r] r show ?thesis by simp
qed

text \<open>
  C4, as stated, fails: in \<^verbatim>\<open>var a = this.props; var b = this.props;\<close> both \<open>a\<close> and
  \<open>b\<close> alias \<open>this.props\<close>, and the scan records \<open>b\<close>, the later one.
\<close>

theorem first_alias_wins_counterexample:
  "map_option thisProps (extractVariableReplacements (JArr ex_two_aliases)) = Some (JStr ''b'')
   \<and> alias_names ''props'' ex_two_aliases = [JStr ''a'', JStr ''b'']"
  by code_simp

section \<open>The base visitor handed to the walker\<close>

lemma walk_trace_aux:
  "(\<And>n l n'. f n = Some (l, n') \<Longrightarrow> set l \<subseteq> S)
     \<Longrightarrow> walk k f v = Some (l, v') \<Longrightarrow> set l \<subseteq> S"
  "(\<And>n l n'. f n = Some (l, n') \<Longrightarrow> set l \<subseteq> S)
     \<Longrightarrow> walk_list k f xs = Some (l1, xs') \<Longrightarrow> set l1 \<subseteq> S"
  "(\<And>n l n'. f n = Some (l, n') \<Longrightarrow> set l \<subseteq> S)
     \<Longrightarrow> walk_fields k f al = Some (l2, al') \<Longrightarrow> set l2 \<subseteq> S"
proof (induction k f v and k f xs and k f al arbitrary: l v' and l1 xs' and l2 al'
       rule: walk_walk_list_walk_fields.induct)
  case (1 k f al)
  from "1.prems"(2) obtain l0 al0 where w: "walk_fields k f al = Some (l0, al0)"
    by (auto split: bind_splits)
  from "1.IH" [OF "1.prems"(1) w] have a: "set l0 \<subseteq> S" .
  show ?case
  proof (cases "has_type (JObj al0) k")
    case True
    with "1.prems"(2) w obtain l' where "f (JObj al0) = Some (l', v')" "l = l0 @ l'"
      by (auto split: bind_splits)
    with "1.prems"(1) a show ?thesis by auto
  next
    case False
    with "1.prems"(2) w a show ?thesis by (auto split: bind_splits)
  qed
next
  case (2 k f xs)
  from "2.prems"(2) obtain xs0 where "walk_list k f xs = Some (l, xs0)"
    by (auto split: bind_splits)
  from "2.IH" [OF "2.prems"(1) this] show ?case .
next
  case (9 k f x xs)
  from "9.prems"(2) obtain la x' lb xs0 where a: "walk k f x = Some (la, x')"
    and b: "walk_list k f xs = Some (lb, xs0)" and v: "l1 = la @ lb"
    by (auto split: bind_splits)
  from "9.IH"(1) [OF "9.prems"(1) a] "9.IH"(2) [OF _ _ "9.prems"(1) b] a v
  show ?case by simp
next
  case (11 k f kv al)
  from "11.prems"(2) obtain la x' lb al0 where a: "walk k f (snd kv) = Some (la, x')"
    and b: "walk_fields k f al = Some (lb, al0)" and v: "l2 = la @ lb"
    by (auto split: bind_splits)
  from "11.IH"(1) [OF "11.prems"(1) a] "11.IH"(2) [OF _ _ "11.prems"(1) b] a v
  show ?case by simp
qed auto

lemma walk_fields_at_trace:
  assumes "\<And>n l n'. f n = Some (l, n') \<Longrightarrow> set l \<subseteq> S"
    and "\<And>v l v'. g v = Some (l, v') \<Longrightarrow> set l \<subseteq> S"
  shows "walk_fields_at key k f g al = Some (l, al') \<Longrightarrow> set l \<subseteq> S"
proof (induction al arbitrary: l al')
  case Nil
  then show ?case by simp
next
  case (Cons kv al)
  from Cons.prems obtain la x' lb al0 where
    a: "(if fst kv = key then g (snd kv) else walk k f (snd kv)) = Some (la, x')"
    and b: "walk_fields_at key k f g al = Some (lb, al0)" and v: "l = la @ lb"
    by (auto split: bind_splits)
  have "set la \<subseteq> S"
  proof (cases "fst kv = key")
    case True
    with a have "g (snd kv) = Some (la, x')" by simp
    then show ?thesis by (rule assms(2))
  next
    case False
    with a have "walk k f (snd kv) = Some (la, x')" by simp
    then show ?thesis by (rule walk_trace_aux(1) [rotated]) (rule assms(1))
  qed
  with Cons.IH [OF b] v show ?case by simp
qed

lemma walk_block_trace:
  assumes "\<And>n l n'. f n = Some (l, n') \<Longrightarrow> set l \<subseteq> S"
    and "\<And>v l v'. g v = Some (l, v') \<Longrightarrow> set l \<subseteq> S"
    and "walk_block k f g b = Some (l, b')"
  shows "set l \<subseteq> S"
proof -
  from assms(3) obtain l0 al where w: "walk_fields_at ''body'' k f g (spread b) = Some (l0, al)"
    and r: "(if has_type (JObj al) k
             then do { (l', n) \<leftarrow> f (JObj al); Some (l0 @ l', JObj al) }
             else Some (l0, JObj al)) = Some (l, b')"
    by (auto simp: walk_block_def split: bind_splits)
  from w have a: "set l0 \<subseteq> S"
    by (rule walk_fields_at_trace [rotated 2]) (erule assms(1), erule assms(2))
  show ?thesis
  proof (cases "has_type (JObj al) k")
    case True
    with r obtain l' n where "f (JObj al) = Some (l', n)" "l = l0 @ l'"
      by (auto split: bind_splits)
    with assms(1) a show ?thesis by auto
  next
    case False
    with r a show ?thesis by simp
  qed
qed

lemma walk_root_trace:
  assumes "\<And>n l n'. f n = Some (l, n') \<Longrightarrow> set l \<subseteq> S"
    and "\<And>v l v'. g v = Some (l, v') \<Longrightarrow> set l \<subseteq> S"
    and "walk_root k f g r = Some (l, r')"
  shows "set l \<subseteq> S"
  using assms(3) unfolding walk_root_def
  by (rule walk_block_trace [rotated 2])
     (erule assms(1), erule walk_block_trace [rotated 2], erule assms(1), erule assms(2))

lemma walk_statements_trace:
  assumes "\<And>n l n'. f n = Some (l, n') \<Longrightarrow> set l \<subseteq> S"
    and "walk_statements k f v = Some (l, v')"
  shows "set l \<subseteq> S"
proof (cases v)
  case (JArr xs)
  with assms(2) obtain xs' where "walk_list k f xs = Some (l, xs')"
    by (auto simp: walk_statements_def split: bind_splits)
  then show ?thesis by (rule walk_trace_aux(2) [rotated]) (rule assms(1))
qed (use assms(2) in \<open>auto simp: walk_statements_def\<close>)

lemma walk_ancestor_trace:
  assumes "\<And>n l n'. f n = Some (l, n') \<Longrightarrow> set l \<subseteq> S"
    and "walk_ancestor r k f wb = Some (l, r')"
  shows "set l \<subseteq> insert wb S"
proof -
  from assms(2) obtain l0 where l: "l = wb # l0"
    and w: "walk_root k f (walk_statements k f) r = Some (l0, r')"
    by (auto simp: walk_ancestor_def split: bind_splits)
  from w have "set l0 \<subseteq> S"
    by (rule walk_root_trace [rotated 2])
       (erule assms(1), erule walk_statements_trace [rotated], erule assms(1))
  with l show ?thesis by auto
qed

lemma parseFunctionBody_trace:
  assumes "parseFunctionBody fe wb = Some (l, fe')"
  shows "set l \<subseteq> {wb}"
proof -
  from assms obtain r cleaned where
    "walk_ancestor (walk_root_of fe cleaned) ''MemberExpression''
       (\<lambda>node. do { n \<leftarrow> member_visitor r node; Some ([], n) }) wb = Some (l, fe')"
    by (auto simp: parseFunctionBody_def applyVariableReplacements_def split: bind_splits)
  then have "set l \<subseteq> insert wb {}"
    by (rule walk_ancestor_trace [rotated]) (auto split: bind_splits)
  then show ?thesis by simp
qed

lemma replaceIdentifierReferences_trace:
  assumes "replaceIdentifierReferences fe clone t wb = Some (l, fe')"
  shows "set l \<subseteq> {wb}"
proof -
  from assms have "set l \<subseteq> insert wb {}"
    unfolding replaceIdentifierReferences_def by (rule walk_ancestor_trace [rotated]) simp
  then show ?thesis by simp
qed

lemma nested_visitor_trace:
  assumes "nested_visitor n = Some (l, n')"
  shows "set l \<subseteq> {JUndef}"
  using assms parseFunctionBody_trace [of n JUndef l n']
  by (auto simp: nested_visitor_def call_this_def split: if_splits bind_splits)

lemma processNestedFunctions_trace:
  assumes "processNestedFunctions fe clone wb = Some (l, fe')"
  shows "set l \<subseteq> {wb, JUndef}"
proof -
  from assms have "set l \<subseteq> insert wb {JUndef}"
    unfolding processNestedFunctions_def
    by (rule walk_ancestor_trace [rotated]) (erule nested_visitor_trace)
  then show ?thesis by simp
qed

lemma handleSpreadArguments_trace:
  assumes "handleSpreadArguments stmts fe wb = Some (l, fe')"
  shows "set l \<subseteq> {wb}"
  using assms
  by (auto simp: handleSpreadArguments_def Let_def split: bind_splits
           dest!: replaceIdentifierReferences_trace)
     (blast+)?

lemma handleRegularSuperCall_trace:
  assumes "handleRegularSuperCall stmts fe sc wb = Some (l, fe')"
  shows "set l \<subseteq> {wb}"
  using assms
  by (auto simp: handleRegularSuperCall_def Let_def split: bind_splits
           dest!: replaceIdentifierReferences_trace)
     (blast+)?

lemma parseConstructor_trace:
  assumes "parseConstructor fe ctx = Some (l, out)"
  shows "set l \<subseteq> {walkBase ctx, JUndef}"
  using assms
  by (auto simp: parseConstructor_def Let_def split: bind_splits if_splits
           dest!: handleSpreadArguments_trace handleRegularSuperCall_trace
                  processNestedFunctions_trace)
     (blast+)?

lemma createConstructorMethod_trace:
  assumes "createConstructorMethod cc ctx = Some (l, m)"
  shows "set l \<subseteq> {walkBase ctx, JUndef}"
proof -
  from assms obtain la fe lb v where l: "l = la @ lb"
    and a: "parseFunctionBody cc (walkBase ctx) = Some (la, fe)"
    and b: "parseConstructor
              (with_prop (with_prop fe ''type'' (JStr ''FunctionExpression'')) ''id'' JNull) ctx
              = Some (lb, v)"
    by (auto simp: createConstructorMethod_def Let_def split: bind_splits)
  from parseFunctionBody_trace [OF a] parseConstructor_trace [OF b] l show ?thesis
    by auto
qed

lemma method_of_statement_trace:
  assumes "method_of_statement pid cc ctx s = Some (l, m)"
  shows "set l \<subseteq> {walkBase ctx, JUndef}"
  using assms
  by (auto simp: method_of_statement_def Let_def split: bind_splits if_splits
           dest!: parseFunctionBody_trace)
     (blast+)?

lemma methods_of_statements_trace:
  "methods_of_statements pid cc ctx ss = Some (l, ms) \<Longrightarrow> set l \<subseteq> {walkBase ctx, JUndef}"
proof (induction ss arbitrary: l ms)
  case Nil
  then show ?case by simp
next
  case (Cons s ss)
  from Cons.prems obtain la m lb ms0 where a: "method_of_statement pid cc ctx s = Some (la, m)"
    and b: "methods_of_statements pid cc ctx ss = Some (lb, ms0)" and l: "l = la @ lb"
    by (auto split: bind_splits)
  from method_of_statement_trace [OF a] Cons.IH [OF b] l show ?case by simp
qed

lemma constructor_part_trace:
  assumes "(if c then do { (l, m) \<leftarrow> createConstructorMethod cc ctx; Some (l, [m]) }
            else Some ([], [])) = Some (la, ms)"
  shows "set la \<subseteq> {walkBase ctx, JUndef}"
proof (cases c)
  case True
  with assms obtain m where "createConstructorMethod cc ctx = Some (la, m)"
    by (auto split: bind_splits)
  then show ?thesis by (rule createConstructorMethod_trace)
next
  case False
  with assms show ?thesis by simp
qed

lemma createMethodsFromFunctionBody_trace:
  assumes "createMethodsFromFunctionBody pid cc fb ctx = Some (l, ms)"
  shows "set l \<subseteq> {walkBase ctx, JUndef}"
proof -
  from assms obtain ss where "methods_of_statements pid cc ctx ss = Some (l, ms)"
    by (auto simp: createMethodsFromFunctionBody_def split: bind_splits)
  then show ?thesis by (rule methods_of_statements_trace)
qed

lemma buildClassBody_trace:
  assumes "buildClassBody pid cc fb ctx = Some (l, ms)"
  shows "set l \<subseteq> {walkBase ctx, JUndef}"
proof -
  from assms obtain la c lb ms0 s0 where l: "l = la @ lb"
    and a: "(if \<not> has_type s0 ''ReturnStatement''
             then do { (l, m) \<leftarrow> createConstructorMethod cc ctx; Some (l, [m]) }
             else Some ([], [])) = Some (la, c)"
    and b: "createMethodsFromFunctionBody pid cc fb ctx = Some (lb, ms0)"
    unfolding buildClassBody_def by (fastforce split: bind_splits)
  from constructor_part_trace [OF a] createMethodsFromFunctionBody_trace [OF b] l
  show ?thesis by simp
qed

lemma parseClassByType_trace:
  assumes "parseClassByType ct node parent ctx = Some (l, out)"
  shows "set l \<subseteq> {walkBase ctx, JUndef}"
proof -
  from assms obtain ms where
    "buildClassBody (protoIdentifier ctx) (classConstructor ctx) (functionBody ctx) ctx
       = Some (l, ms)"
    by (cases ct)
       (auto simp: parseClassByType_def parseRegularClass_def parseNewClass_def Let_def
             split: bind_splits)
  then show ?thesis by (rule buildClassBody_trace)
qed

lemma buildParsingContext_walkBase:
  assumes "buildParsingContext pr node parent ct = Some ctx"
  shows "walkBase ctx = JObj []"
  using assms
  by (cases ct)
     (auto simp: buildParsingContext_def buildClassContext_def buildNewClassContext_def Let_def
           split: option.splits if_splits bind_splits)

text \<open>
  C3 on the code. Whatever base visitor \<open>parse\<close> is given, each call of the walker
  receives the empty object that the context builders store as \<open>walkBase\<close>, or
  \<open>undefined\<close>, the \<open>walkBase\<close> of the context \<open>{}\<close> that the nested-function visitor
  passes on. The argument of \<open>parse\<close> is tested for truthiness and not used again.
\<close>

theorem walk_base_not_forwarded:
  assumes "parse pr node parent wb = Some (l, out)"
  shows "set l \<subseteq> {JObj [], JUndef}"
proof (cases "truthy node \<and> truthy parent \<and> truthy wb")
  case False
  with assms show ?thesis by (auto simp: parse_def)
next
  case True
  with assms obtain c where c: "findClassType node parent = Some c"
    and r: "(case c of None \<Rightarrow> Some ([], parent)
             | Some ct \<Rightarrow> (case buildParsingContext pr node parent ct of
                 None \<Rightarrow> Some ([], parent)
               | Some ctx \<Rightarrow> parseClassByType ct node parent ctx)) = Some (l, out)"
    by (auto simp: parse_def split: bind_splits)
  show ?thesis
  proof (cases c)
    case None
    with r show ?thesis by simp
  next
    case (Some ct)
    show ?thesis
    proof (cases "buildParsingContext pr node parent ct")
      case None
      with r Some show ?thesis by simp
    next
      case (Some ctx)
      with r \<open>c = Some ct\<close> have "parseClassByType ct node parent ctx = Some (l, out)" by simp
      from parseClassByType_trace [OF this] buildParsingContext_walkBase [OF Some]
      show ?thesis by simp
    qed
  qed
qed

text \<open>
  The rewrite of \<open>ex_small_node\<close> with the base visitor \<open>ex_walk_base\<close> calls the walker
  twice, to de-alias the constructor and the method, each time with \<open>{}\<close>.
\<close>

theorem walk_base_not_forwarded_witness:
  "\<exists>l out. parse name_printer ex_small_node (var_decl [ex_small_node]) ex_walk_base = Some (l, out)
     \<and> length l = 2 \<and> ex_walk_base \<notin> set l"
proof -
  have "map_option fst (parse name_printer ex_small_node (var_decl [ex_small_node]) ex_walk_base)
          = Some [JObj [], JObj []]"
    by code_simp
  then obtain l out where
    p: "parse name_printer ex_small_node (var_decl [ex_small_node]) ex_walk_base = Some (l, out)"
    and l: "l = [JObj [], JObj []]"
    by auto
  have "ex_walk_base \<notin> {JObj [], JUndef}" by (simp add: ex_walk_base_def)
  with walk_base_not_forwarded [OF p] have "ex_walk_base \<notin> set l" by blast
  with p l show ?thesis by simp
qed

section \<open>Walks whose visitor raises\<close>

lemma has_node_list_iff: "has_node_list Q xs = (\<exists>x \<in> set xs. has_node Q x)"
  by (induction xs) auto

lemma has_node_mono:
  "has_node Q v \<Longrightarrow> (\<And>n. Q n \<Longrightarrow> Q' n) \<Longrightarrow> has_node Q' v"
  "has_node_list Q xs \<Longrightarrow> (\<And>n. Q n \<Longrightarrow> Q' n) \<Longrightarrow> has_node_list Q' xs"
  "has_node_fields Q al \<Longrightarrow> (\<And>n. Q n \<Longrightarrow> Q' n) \<Longrightarrow> has_node_fields Q' al"
  by (induction Q v and Q xs and Q al rule: has_node_has_node_list_has_node_fields.induct) auto

lemma has_node_truthy: "has_node Q v \<Longrightarrow> truthy v"
  by (cases v) simp_all

text \<open>
  A walk whose visitor raises at every node returns only when it meets no node of the
  visitor's type, and then it has changed nothing.
\<close>

lemma walk_raising:
  "(\<And>n. f n = None) \<Longrightarrow>
     walk k f v = (if has_node (\<lambda>n. has_type n k) v then None else Some ([], v))"
  "(\<And>n. f n = None) \<Longrightarrow>
     walk_list k f xs = (if has_node_list (\<lambda>n. has_type n k) xs then None else Some ([], xs))"
  "(\<And>n. f n = None) \<Longrightarrow>
     walk_fields k f al = (if has_node_fields (\<lambda>n. has_type n k) al then None else Some ([], al))"
  by (induction k f v and k f xs and k f al rule: walk_walk_list_walk_fields.induct) auto

lemma walk_fields_at_keeps:
  "walk_fields_at key k f g al = Some (l, al') \<Longrightarrow> key' \<noteq> key
     \<Longrightarrow> map_of al key' = Some (JStr s) \<Longrightarrow> map_of al' key' = Some (JStr s)"
  by (induction al arbitrary: l al') (auto split: bind_splits if_splits)

lemma has_type_map_of: "has_type b t \<Longrightarrow> map_of (spread b) ''type'' = Some (JStr t)"
  by (cases b) (auto simp: has_type_def split: option.splits if_splits)

lemma walk_fields_at_type:
  assumes "walk_fields_at ''body'' k f g (spread b) = Some (l, al)" "has_type b t"
  shows "has_type (JObj al) t"
  using walk_fields_at_keeps [OF assms(1) _ has_type_map_of [OF assms(2)]]
  by (simp add: has_type_def)

lemma walk_block_type:
  assumes "walk_block k f g b = Some (l, b')" "has_type b t"
  shows "has_type b' t"
  using assms
  by (auto simp: walk_block_def split: bind_splits if_splits dest: walk_fields_at_type)

lemma walk_block_raises:
  assumes "has_type b k" "\<And>n. f n = None"
  shows "walk_block k f g b = None"
proof (cases "walk_fields_at ''body'' k f g (spread b)")
  case None
  then show ?thesis by (simp add: walk_block_def)
next
  case (Some p)
  then obtain l al where p: "walk_fields_at ''body'' k f g (spread b) = Some (l, al)"
    by (cases p) simp
  from walk_fields_at_type [OF p assms(1)] p assms(2) show ?thesis
    by (simp add: walk_block_def)
qed

text \<open>The visitor is called at the root when the root has its type.\<close>

lemma walk_ancestor_raises_root:
  assumes "has_type root k" "\<And>n. f n = None"
  shows "walk_ancestor root k f wb = None"
  using walk_block_raises [OF assms(1), of f] assms(2)
  by (simp add: walk_ancestor_def walk_root_def)

lemma walk_ancestor_type:
  assumes "walk_ancestor root k f wb = Some (l, r)" "has_type root t"
  shows "has_type r t"
  using assms
  by (auto simp: walk_ancestor_def walk_root_def split: bind_splits dest: walk_block_type)

text \<open>What a walk from the root leaves as the statement list.\<close>

lemma walk_fields_at_lookup:
  assumes "walk_fields_at key k f g al = Some (l, al')" "map_of al key = Some v"
  shows "\<exists>l' v'. g v = Some (l', v') \<and> map_of al' key = Some v'"
  using assms
proof (induction al arbitrary: l al')
  case Nil
  then show ?case by simp
next
  case (Cons kv al)
  from Cons.prems(1) obtain la x' lb al0 where
    a: "(if fst kv = key then g (snd kv) else walk k f (snd kv)) = Some (la, x')"
    and b: "walk_fields_at key k f g al = Some (lb, al0)" and v: "al' = (fst kv, x') # al0"
    by (auto split: bind_splits)
  show ?case
  proof (cases "fst kv = key")
    case True
    with Cons.prems(2) have "snd kv = v" by (cases kv) simp
    with True a v show ?thesis by auto
  next
    case False
    with Cons.prems(2) have "map_of al key = Some v" by (cases kv) simp
    from Cons.IH [OF b this] False v show ?thesis by auto
  qed
qed

lemma walk_block_lookup:
  assumes "walk_block k f g b = Some (l, b')" "map_of (spread b) ''body'' = Some v"
  shows "\<exists>l' v'. g v = Some (l', v') \<and> field b' ''body'' = v'"
proof -
  from assms(1) obtain l0 al where
    w: "walk_fields_at ''body'' k f g (spread b) = Some (l0, al)" and b': "b' = JObj al"
    by (auto simp: walk_block_def split: bind_splits if_splits)
  from walk_fields_at_lookup [OF w assms(2)] b' show ?thesis by auto
qed

lemma walk_ancestor_statements:
  assumes "walk_ancestor (walk_root_of fe stmts) k f wb = Some (l, fe')"
  shows "\<exists>l'. walk_list k f stmts = Some (l', statements_of fe')"
proof -
  let ?B = "with_prop (field fe ''body'') ''body'' (JArr stmts)"
  from assms obtain l0 where
    r: "walk_block k f (walk_block k f (walk_statements k f)) (with_prop fe ''body'' ?B)
          = Some (l0, fe')"
    by (auto simp: walk_ancestor_def walk_root_def walk_root_of_def split: bind_splits)
  have "map_of (spread (with_prop fe ''body'' ?B)) ''body'' = Some ?B"
    by (simp add: with_prop_def update_conv')
  from walk_block_lookup [OF r this] obtain l1 where
    b: "walk_block k f (walk_statements k f) ?B = Some (l1, field fe' ''body'')"
    by auto
  have "map_of (spread ?B) ''body'' = Some (JArr stmts)"
    by (simp add: with_prop_def update_conv')
  from walk_block_lookup [OF b this] obtain l2 where
    s: "walk_statements k f (JArr stmts) = Some (l2, field (field fe' ''body'') ''body'')"
    by auto
  then obtain xs' where "walk_list k f stmts = Some (l2, xs')"
    and "field (field fe' ''body'') ''body'' = JArr xs'"
    by (auto simp: walk_statements_def split: bind_splits)
  then show ?thesis by (auto simp: statements_of_def)
qed

text \<open>The visitor is called at every node of its type below the statements.\<close>

lemma walk_ancestor_raises_below:
  assumes "\<And>n. f n = None" "has_node_list (\<lambda>n. has_type n k) stmts"
  shows "walk_ancestor (walk_root_of fe stmts) k f wb = None"
proof (rule ccontr)
  assume "walk_ancestor (walk_root_of fe stmts) k f wb \<noteq> None"
  then obtain l fe' where "walk_ancestor (walk_root_of fe stmts) k f wb = Some (l, fe')"
    by fastforce
  from walk_ancestor_statements [OF this] walk_raising(2) [of f k stmts] assms
  show False by simp
qed

text \<open>
  The two visitors that reach ClassParser's helpers through \<open>this\<close> raise at every node:
  their first statement calls a helper that the visitors object does not have.
\<close>

lemma member_visitor_raises: "member_visitor r n = None"
  by (simp add: member_visitor_def call_this_def member_visitors_def)

lemma nested_visitor_raises: "nested_visitor n = None"
  by (simp add: nested_visitor_def call_this_def nested_visitors_def)

lemma cleanup_statements_keeps:
  "cleanup_statements r ns = Some ns' \<Longrightarrow> s \<in> set ns
     \<Longrightarrow> \<not> has_type s ''VariableDeclaration'' \<Longrightarrow> s \<in> set ns'"
  by (induction ns arbitrary: ns')
     (auto simp: cleanup_statement_def get_def has_type_def split: bind_splits if_splits)

text \<open>
  De-aliasing raises as soon as a statement that the cleanup keeps holds a member
  expression.
\<close>

lemma parseFunctionBody_raises:
  assumes stmts: "field (field fe ''body'') ''body'' = JArr stmts"
    and s: "s \<in> set stmts" "\<not> has_type s ''VariableDeclaration''"
    and m: "has_node (\<lambda>n. has_type n ''MemberExpression'') s"
  shows "parseFunctionBody fe wb = None"
proof (rule ccontr)
  assume "parseFunctionBody fe wb \<noteq> None"
  with stmts obtain r cleaned where
    c: "cleanupVariableDeclarations (JArr stmts) r = Some cleaned"
    and a: "applyVariableReplacements fe cleaned r wb \<noteq> None"
    by (auto simp: parseFunctionBody_def get_def split: bind_splits if_splits)
  from c obtain ns' where n: "cleanup_statements r stmts = Some ns'"
    and f: "cleaned = filter truthy ns'"
    by (auto simp: cleanupVariableDeclarations_def split: bind_splits)
  from cleanup_statements_keeps [OF n s] f has_node_truthy [OF m]
  have "s \<in> set cleaned" by simp
  with m have "has_node_list (\<lambda>n. has_type n ''MemberExpression'') cleaned"
    by (auto simp: has_node_list_iff)
  then have "applyVariableReplacements fe cleaned r wb = None"
    unfolding applyVariableReplacements_def
    by (rule walk_ancestor_raises_below [rotated]) (simp add: member_visitor_raises)
  with a show False by simp
qed

section \<open>The form \<open>this.constructor\<close>\<close>

lemma is_this_constructor_type: "is_this_constructor n \<Longrightarrow> has_type n ''MemberExpression''"
  by (simp add: is_this_constructor_def isValidMemberExpression_def)

text \<open>
  C7 on the code. No \<open>this.constructor\<close> is turned into \<open>this\<close>. When a statement of the
  body other than a variable declaration holds a member expression of that form, the
  visitor is called at it (or at a member expression met before it) and raises with its
  first statement, \<open>this.isValidMemberExpression(node)\<close>: de-aliasing ends with a
  TypeError, whatever aliases the body declares and whatever base visitor is passed.
\<close>

theorem this_constructor_not_collapsed:
  assumes "field (field fe ''body'') ''body'' = JArr stmts"
    and "s \<in> set stmts"
    and "\<not> has_type s ''VariableDeclaration''"
    and "has_node is_this_constructor s"
  shows "parseFunctionBody fe wb = None"
  using assms(1-3)
  by (rule parseFunctionBody_raises)
     (rule has_node_mono(1) [OF assms(4)], erule is_this_constructor_type)

text \<open>\<^verbatim>\<open>function () { return this.constructor.name; }\<close> is such a body.\<close>

theorem this_constructor_not_collapsed_witness:
  "field (field ex_constructor_name ''body'') ''body''
     = JArr [return_stmt (member (member this_node ''constructor'') ''name'')]
   \<and> has_node is_this_constructor (return_stmt (member (member this_node ''constructor'') ''name''))
   \<and> parseFunctionBody ex_constructor_name (JObj []) = None"
proof -
  let ?s = "return_stmt (member (member this_node ''constructor'') ''name'')"
  have a: "field (field ex_constructor_name ''body'') ''body'' = JArr [?s]"
    by (simp add: ex_constructor_name_def func_def)
  have b: "?s \<in> set [?s]" by simp
  have c: "\<not> has_type ?s ''VariableDeclaration''"
    by (simp add: return_stmt_def has_type_def)
  have d: "has_node is_this_constructor ?s" by code_simp
  from this_constructor_not_collapsed [OF a b c d] a d show ?thesis by simp
qed

section \<open>An alias of \<open>this\<close>\<close>

text \<open>
  C2 on the code, at \<^verbatim>\<open>function () { var self = this; self.y; }\<close>. The scan records no
  alias for \<open>self\<close>: the branch that would record it sits behind the test that the
  initializer is a member expression. So the cleanup keeps the declaration, and the walk
  then raises at \<open>self.y\<close>, where the visitor calls \<open>this.isValidMemberExpression\<close>, instead
  of rewriting it. Without the access, \<^verbatim>\<open>function () { var self = this; }\<close>,
  de-aliasing returns the declaration. The second half of the claim fails the same way:
  at \<^verbatim>\<open>function () { var p = this.props; p.z; }\<close> the alias \<open>p\<close> is recorded and the
  walk raises at \<open>p.z\<close>.
\<close>

theorem self_alias_kept:
  "map_option thisMirror (extractVariableReplacements (JArr (statements_of ex_self_function)))
     = Some JUndef
   \<and> Option.bind (extractVariableReplacements (JArr (statements_of ex_self_function)))
        (cleanupVariableDeclarations (JArr (statements_of ex_self_function)))
     = Some [var_decl [declarator ''self'' this_node], expr_stmt (member (ident ''self'') ''y'')]
   \<and> parseFunctionBody ex_self_function (JObj []) = None
   \<and> map_option (\<lambda>t. statements_of (snd t)) (parseFunctionBody ex_self_only (JObj []))
     = Some [var_decl [declarator ''self'' this_node]]
   \<and> map_option thisProps (extractVariableReplacements (JArr (statements_of ex_props_function)))
     = Some (JStr ''p'')
   \<and> parseFunctionBody ex_props_function (JObj []) = None"
  by code_simp

theorem self_alias_kept_witness:
  "parseFunctionBody ex_self_function (JObj []) = None
   \<and> (\<exists>l fe. parseFunctionBody ex_self_only (JObj []) = Some (l, fe)
         \<and> field (hd (statements_of fe)) ''type'' = JStr ''VariableDeclaration'')"
  using self_alias_kept by (auto simp: var_decl_def)

section \<open>The regular super call\<close>

lemma has_type_walk_root_of [simp]: "has_type (walk_root_of fe stmts) t = has_type fe t"
  by (cases fe) (simp_all add: walk_root_of_def has_type_def)

lemma has_type_node: "has_type n k \<Longrightarrow> has_node (\<lambda>n. has_type n k) n"
  by (cases n) (simp_all add: has_type_def)

lemma has_node_map_of:
  "map_of al k = Some x \<Longrightarrow> has_node Q x \<Longrightarrow> has_node_fields Q al"
  by (induction al) (auto split: if_splits)

lemma has_node_field: "has_node Q (field v k) \<Longrightarrow> has_node Q v"
  by (cases v) (auto split: option.splits if_splits dest: has_node_map_of)

text \<open>
  Nested-function processing raises on a function expression: the walk calls the visitor
  at its root, and the visitor's first statement is \<open>this.isValidFunctionExpression(node)\<close>.
\<close>

lemma processNestedFunctions_raises:
  assumes "has_type fe ''FunctionExpression''"
  shows "processNestedFunctions fe clone wb = None"
  unfolding processNestedFunctions_def
  by (rule walk_ancestor_raises_root) (simp_all add: assms nested_visitor_raises)

lemma replaceIdentifierReferences_type:
  assumes "replaceIdentifierReferences fe clone v wb = Some (l, fe')" "has_type fe t"
  shows "has_type fe' t"
  using assms unfolding replaceIdentifierReferences_def
  by (auto dest: walk_ancestor_type)

lemma handlers_type:
  assumes "has_type fe t"
  shows "handleSpreadArguments stmts fe wb = Some (l, fe') \<Longrightarrow> has_type fe' t"
    and "handleRegularSuperCall stmts fe sc wb = Some (l, fe') \<Longrightarrow> has_type fe' t"
  using assms
  by (auto simp: handleSpreadArguments_def handleRegularSuperCall_def Let_def
           split: bind_splits dest: replaceIdentifierReferences_type)

text \<open>
  So parseConstructor raises on every function expression whose statement list does not
  end the early way: whichever pattern matched, nested-function processing comes last.
\<close>

lemma handled_type:
  assumes "(if isSpread then handleSpreadArguments stmts fe wb
            else do {
              isRegular \<leftarrow> isRegularSuperCallPattern stmts lastNode sc;
              if isRegular then handleRegularSuperCall stmts fe sc wb
              else Some ([], walk_root_of fe stmts)
            }) = Some (l, fe')"
    and "has_type fe t"
  shows "has_type fe' t"
proof (cases isSpread)
  case True
  with assms show ?thesis by (simp add: handlers_type(1))
next
  case False
  with assms obtain isRegular where
    "(if isRegular then handleRegularSuperCall stmts fe sc wb
      else Some ([], walk_root_of fe stmts)) = Some (l, fe')"
    by (auto split: bind_splits)
  with assms(2) show ?thesis
    by (cases isRegular) (auto simp: handlers_type(2))
qed

lemma parseConstructor_raises:
  assumes t: "has_type fe ''FunctionExpression''"
    and stmts: "field (field fe ''body'') ''body'' = JArr stmts"
    and ne: "stmts \<noteq> []" "truthy (last stmts)"
  shows "parseConstructor fe ctx = None"
proof -
  let ?h = "\<lambda>isSpread.
        (if isSpread then handleSpreadArguments stmts fe (walkBase ctx)
         else do {
           isRegular \<leftarrow> isRegularSuperCallPattern stmts (last stmts) (superClass ctx);
           if isRegular then handleRegularSuperCall stmts fe (superClass ctx) (walkBase ctx)
           else Some ([], walk_root_of fe stmts)
         })"
  have n: "\<not> nullish fe" using t by (auto dest: has_type_truthy truthy_not_nullish)
  have nb: "\<not> nullish (field fe ''body'')"
    using stmts by (cases "field fe ''body''") auto
  have e: "parseConstructor fe ctx =
      do {
        isSpread \<leftarrow> isSpreadArgumentsPattern stmts (last stmts) fe (superClass ctx);
        (l, fe') \<leftarrow> ?h isSpread;
        (l', fe'') \<leftarrow> processNestedFunctions fe' (statements_of fe') (walkBase ctx);
        Some (l @ l',
              with_prop fe'' ''params'' (if isSpread then rest_params else field fe'' ''params''))
      }"
    using n nb ne by (simp add: parseConstructor_def get_def stmts Let_def)
  show ?thesis
  proof (cases "isSpreadArgumentsPattern stmts (last stmts) fe (superClass ctx)")
    case None
    with e show ?thesis by simp
  next
    case (Some isSpread)
    show ?thesis
    proof (cases "?h isSpread")
      case None
      with e Some show ?thesis by simp
    next
      case (Some p)
      obtain l1 fe1 where p: "p = (l1, fe1)" by (cases p)
      with Some have "?h isSpread = Some (l1, fe1)" by simp
      from handled_type [OF this t] have "has_type fe1 ''FunctionExpression''" .
      from processNestedFunctions_raises [OF this] e Some p
        \<open>isSpreadArgumentsPattern stmts (last stmts) fe (superClass ctx) = Some isSpread\<close>
      show ?thesis by simp
    qed
  qed
qed

lemma regular_pattern_parts:
  assumes "isRegularSuperCallPattern stmts lastNode sc = Some True"
  shows "2 \<le> length stmts"
    and "has_type (stmts ! 0) ''VariableDeclaration''"
    and "assigns_call_or_this True (stmts ! 1)"
    and "has_type lastNode ''ReturnStatement''"
  using assms
  by (auto simp: isRegularSuperCallPattern_def declares_identifier_def returns_declared_def
                 stmt_at_def
           split: if_splits bind_splits)

lemma assigns_call_member:
  assumes "assigns_call_or_this True s"
  shows "has_node (\<lambda>n. has_type n ''MemberExpression'') s"
    and "\<not> has_type s ''VariableDeclaration''"
proof -
  from assms have
    "has_type (field (field (field (field s ''expression'') ''right'') ''left'') ''callee'')
       ''MemberExpression''"
    by (simp add: assigns_call_or_this_def Let_def)
  then show "has_node (\<lambda>n. has_type n ''MemberExpression'') s"
    by (blast intro: has_type_node has_node_field)
  from assms show "\<not> has_type s ''VariableDeclaration''"
    by (simp add: assigns_call_or_this_def Let_def has_type_def)
qed

text \<open>
  A constructor of the regular idiom is not even handed to parseConstructor: its second
  statement calls a member expression, at which the de-aliasing of the constructor raises.
\<close>

lemma buildClassBody_regular_raises:
  assumes stmts: "field (field cc ''body'') ''body'' = JArr stmts"
    and idiom: "isRegularSuperCallPattern stmts lastNode sc = Some True"
  shows "buildClassBody pid cc fb ctx = None"
proof -
  note p = regular_pattern_parts [OF idiom]
  from p(1) have s1: "stmts ! 1 \<in> set stmts" by simp
  have "parseFunctionBody cc (walkBase ctx) = None"
    using stmts s1 assigns_call_member(2) [OF p(3)] assigns_call_member(1) [OF p(3)]
    by (rule parseFunctionBody_raises)
  then have c: "createConstructorMethod cc ctx = None"
    by (simp add: createConstructorMethod_def)
  from p(1) p(2) have "\<not> has_type (elem (JArr stmts) 0) ''ReturnStatement''"
    by (auto simp: has_type_def)
  with stmts c show ?thesis
    by (auto simp: buildClassBody_def get_def idx_def split: bind_splits)
qed

text \<open>
  What the handler of the idiom does for the constructor of \<open>ex_node\<close>, taken alone: the
  statements are \<^verbatim>\<open>super(a, b)\<close> and the one statement between the two leading ones
  and the return, \<^verbatim>\<open>_this.x = a\<close>, in which the identifier \<open>_this\<close> has become a node of
  type \<open>ThisExpression\<close>.
\<close>

lemma handleRegularSuperCall_example:
  "map_option (\<lambda>t. statements_of (snd t))
     (handleRegularSuperCall (statements_of ex_ctor) ex_ctor (ident ''Foo'') (JObj []))
     = Some [super_call [ident ''a'', ident ''b''],
             expr_stmt (assign
               (member (with_prop (ident ''_this'') ''type'' (JStr ''ThisExpression'')) ''x'')
               (ident ''a''))]"
  by code_simp

text \<open>
  C5 on the code. For a matched class whose constructor satisfies the regular super-call
  idiom no rewritten constructor is returned. \<open>parse\<close> raises: the constructor is
  de-aliased before it is reconstructed, and the member expression that the idiom calls
  makes that walk raise. parseConstructor, given the constructor as the function
  expression that createConstructorMethod builds, raises too: after the handler has built
  the statements that begin with the super call, nested-function processing visits the
  root of its walk, a function expression, and the visitor raises.
\<close>

theorem regular_super_call_raises:
  assumes wb: "truthy wb"
    and ct: "findClassType node parent = Some (Some ct)"
    and ctx: "buildParsingContext pr node parent ct = Some ctx"
    and stmts: "field (field (classConstructor ctx) ''body'') ''body'' = JArr stmts"
    and idiom: "isRegularSuperCallPattern stmts (last stmts) (superClass ctx) = Some True"
  shows "parse pr node parent wb = None
       \<and> (\<forall>fe. has_type fe ''FunctionExpression''
                 \<and> field (field fe ''body'') ''body'' = JArr stmts
               \<longrightarrow> parseConstructor fe ctx = None)"
proof -
  have "buildClassBody (protoIdentifier ctx) (classConstructor ctx) (functionBody ctx) ctx = None"
    using stmts idiom by (rule buildClassBody_regular_raises)
  then have "parseClassByType ct node parent ctx = None"
    by (cases ct) (simp_all add: parseClassByType_def parseRegularClass_def parseNewClass_def)
  with parse_matched [OF wb ct ctx] have a: "parse pr node parent wb = None" by simp
  note p = regular_pattern_parts [OF idiom]
  from p(1) have "stmts \<noteq> []" by auto
  moreover from p(4) have "truthy (last stmts)" by (rule has_type_truthy)
  ultimately have "\<And>fe. has_type fe ''FunctionExpression''
      \<Longrightarrow> field (field fe ''body'') ''body'' = JArr stmts \<Longrightarrow> parseConstructor fe ctx = None"
    by (rule parseConstructor_raises [rotated 2])
  with a show ?thesis by blast
qed

text \<open>
  \<open>ex_node\<close> is the class of the specification's scenario with a regular super call:
  \<^verbatim>\<open>_inherits(Bar, _Foo)\<close>, a constructor that assigns \<^verbatim>\<open>_Foo.call(this, a, b) || this\<close>
  and returns the variable, and one method.
\<close>

theorem regular_super_call_raises_witness:
  "findClassType ex_node (var_decl [ex_node]) = Some (Some Class)
   \<and> buildParsingContext name_printer ex_node (var_decl [ex_node]) Class = Some ex_context
   \<and> isRegularSuperCallPattern (statements_of ex_ctor) (last (statements_of ex_ctor))
        (superClass ex_context) = Some True
   \<and> parse name_printer ex_node (var_decl [ex_node]) (JObj []) = None
   \<and> parseConstructor (with_prop (with_prop ex_ctor ''type'' (JStr ''FunctionExpression'')) ''id'' JNull)
        ex_context = None"
proof -
  let ?fe = "with_prop (with_prop ex_ctor ''type'' (JStr ''FunctionExpression'')) ''id'' JNull"
  have w: "truthy (JObj [])" by simp
  have c: "findClassType ex_node (var_decl [ex_node]) = Some (Some Class)"
    by code_simp
  have x: "buildParsingContext name_printer ex_node (var_decl [ex_node]) Class = Some ex_context"
    by code_simp
  have s: "field (field (classConstructor ex_context) ''body'') ''body''
             = JArr (statements_of ex_ctor)"
    by code_simp
  have i: "isRegularSuperCallPattern (statements_of ex_ctor) (last (statements_of ex_ctor))
             (superClass ex_context) = Some True"
    by code_simp
  have t: "has_type ?fe ''FunctionExpression''" by code_simp
  have b: "field (field ?fe ''body'') ''body'' = JArr (statements_of ex_ctor)" by code_simp
  from regular_super_call_raises [OF w c x s i] t b c x i show ?thesis by blast
qed

end
